(* ===== verification/GoPrelude.thy ===== *)
theory GoPrelude
  imports Main "HOL-Library.AList" "HOL-Library.Multiset"
begin

text \<open>
  The part of Go and of its standard library that the ingester's sources use, shared by every
  component theory: results with errors and panics, Go maps as association lists, the
  \<^verbatim>\<open>strings\<close> functions on byte strings, decimal printing, and the generic notions of a run and
  of a reachable state. Nothing here models a file under \<^verbatim>\<open>src/\<close>.

  A Go string is a list of bytes, one \<^typ>\<open>char\<close> per byte.
\<close>

named_theorems go_simps \<open>unfolding rules for the model's straight-line operations\<close>
named_theorems inv_simps \<open>invariants and the projections they are stated with\<close>

subsection \<open>Results\<close>

text \<open>
  A Go function that returns \<^verbatim>\<open>(T, error)\<close> and cannot panic has the type
  \<^typ>\<open>string + 'a\<close>; the error is its message. Where the code can also panic (an index out of
  range, a nil dereference, a failed type assertion, a send on a closed channel) the result is a
  value of the following type.
\<close>

type_synonym goerror = string

datatype 'a outcome = Ok 'a | Err goerror | Panic string

definition is_panic :: "'a outcome \<Rightarrow> bool" where
  "is_panic r = (case r of Panic _ \<Rightarrow> True | _ \<Rightarrow> False)"

text \<open>Indexing a slice: out of range is a run-time panic.\<close>

definition go_index :: "'a list \<Rightarrow> nat \<Rightarrow> 'a outcome" where
  "go_index xs i = (if i < length xs then Ok (xs ! i) else Panic ''index out of range'')"

fun bind_outcome :: "'a outcome \<Rightarrow> ('a \<Rightarrow> 'b outcome) \<Rightarrow> 'b outcome" where
  "bind_outcome (Ok x) f = f x"
| "bind_outcome (Err e) f = Err e"
| "bind_outcome (Panic p) f = Panic p"

subsection \<open>Go maps\<close>

text \<open>
  A Go map is an association list with distinct keys; \<^verbatim>\<open>m[k] = v\<close> is \<^term>\<open>AList.update k v m\<close>,
  \<^verbatim>\<open>delete(m, k)\<close> is \<^term>\<open>AList.delete k m\<close>, a lookup is \<^term>\<open>map_of m k\<close> and \<^verbatim>\<open>len(m)\<close> is
  \<^term>\<open>length m\<close>. The order in which \<^verbatim>\<open>range\<close> visits a map is unspecified: a loop over a map takes
  the visiting order as an argument, and \<open>visits_map\<close> says that it is an order of this map.
\<close>

type_synonym ('k, 'v) gomap = "('k \<times> 'v) list"

definition wf_map :: "('k, 'v) gomap \<Rightarrow> bool" where
  "wf_map m \<longleftrightarrow> distinct (map fst m)"

definition visits_map :: "('k, 'v) gomap \<Rightarrow> ('k \<times> 'v) list \<Rightarrow> bool" where
  "visits_map m es \<longleftrightarrow> mset es = mset m"

subsection \<open>The strings package\<close>

text \<open>\<^verbatim>\<open>strings.Split(s, sep)\<close> for a separator of one byte.\<close>

fun strings_Split :: "string \<Rightarrow> char \<Rightarrow> string list" where
  "strings_Split [] c = [[]]"
| "strings_Split (x # xs) c =
     (if x = c then [] # strings_Split xs c
      else case strings_Split xs c of [] \<Rightarrow> [[x]] | p # ps \<Rightarrow> (x # p) # ps)"

text \<open>\<^verbatim>\<open>strings.SplitN(s, sep, 2)\<close>: at most one cut, at the first separator.\<close>

definition strings_SplitN2 :: "string \<Rightarrow> char \<Rightarrow> string list" where
  "strings_SplitN2 s c =
     (if c \<in> set s
      then [takeWhile (\<lambda>x. x \<noteq> c) s, tl (dropWhile (\<lambda>x. x \<noteq> c) s)]
      else [s])"

fun strings_Join :: "string list \<Rightarrow> string \<Rightarrow> string" where
  "strings_Join [] sep = []"
| "strings_Join [x] sep = x"
| "strings_Join (x # y # ys) sep = x @ sep @ strings_Join (y # ys) sep"

definition strings_HasPrefix :: "string \<Rightarrow> string \<Rightarrow> bool" where
  "strings_HasPrefix s p \<longleftrightarrow> take (length p) s = p"

definition strings_HasSuffix :: "string \<Rightarrow> string \<Rightarrow> bool" where
  "strings_HasSuffix s p \<longleftrightarrow> length p \<le> length s \<and> drop (length s - length p) s = p"

text \<open>
  The UTF-8 encodings of the runes for which \<^verbatim>\<open>unicode.IsSpace\<close> holds. \<^verbatim>\<open>TrimSpace\<close> removes them
  from both ends. No encoding is a prefix of another, and each is a start byte followed by
  continuation bytes, so that decoding a rune at either end of a string finds one of them exactly
  when its bytes are there.
\<close>

definition space_runes :: "string list" where
  "space_runes =
     [[CHR 0x09], [CHR 0x0A], [CHR 0x0B], [CHR 0x0C], [CHR 0x0D], [CHR 0x20],
      [CHR 0xC2, CHR 0x85], [CHR 0xC2, CHR 0xA0], [CHR 0xE1, CHR 0x9A, CHR 0x80],
      [CHR 0xE2, CHR 0x80, CHR 0x80], [CHR 0xE2, CHR 0x80, CHR 0x81],
      [CHR 0xE2, CHR 0x80, CHR 0x82], [CHR 0xE2, CHR 0x80, CHR 0x83],
      [CHR 0xE2, CHR 0x80, CHR 0x84], [CHR 0xE2, CHR 0x80, CHR 0x85],
      [CHR 0xE2, CHR 0x80, CHR 0x86], [CHR 0xE2, CHR 0x80, CHR 0x87],
      [CHR 0xE2, CHR 0x80, CHR 0x88], [CHR 0xE2, CHR 0x80, CHR 0x89],
      [CHR 0xE2, CHR 0x80, CHR 0x8A], [CHR 0xE2, CHR 0x80, CHR 0xA8],
      [CHR 0xE2, CHR 0x80, CHR 0xA9], [CHR 0xE2, CHR 0x80, CHR 0xAF],
      [CHR 0xE2, CHR 0x81, CHR 0x9F], [CHR 0xE3, CHR 0x80, CHR 0x80]]"

fun strip_one :: "string list \<Rightarrow> string \<Rightarrow> string" where
  "strip_one [] s = s"
| "strip_one (p # ps) s =
     (if strings_HasPrefix s p then drop (length p) s else strip_one ps s)"

text \<open>Removing one rune after another; the string's own length bounds the number of rounds.\<close>

fun strip_front :: "nat \<Rightarrow> string list \<Rightarrow> string \<Rightarrow> string" where
  "strip_front 0 ps s = s"
| "strip_front (Suc n) ps s =
     (let s' = strip_one ps s in if length s' < length s then strip_front n ps s' else s)"

definition strings_TrimSpace :: "string \<Rightarrow> string" where
  "strings_TrimSpace s =
     (let l = strip_front (length s) space_runes s;
          r = strip_front (length l) (map rev space_runes) (rev l)
      in rev r)"

subsection \<open>Decimal printing, the verb d of fmt\<close>

fun itoa :: "nat \<Rightarrow> string" where
  "itoa n = (if n < 10 then [char_of (48 + n)]
             else itoa (n div 10) @ [char_of (48 + n mod 10)])"

declare itoa.simps [simp del]

subsection \<open>Runs and reachable states\<close>

text \<open>A deterministic handler folded over a sequence of inputs.\<close>

fun run_all :: "('s \<Rightarrow> 'e \<Rightarrow> 's) \<Rightarrow> 's \<Rightarrow> 'e list \<Rightarrow> 's" where
  "run_all f s [] = s"
| "run_all f s (e # es) = run_all f (f s e) es"

text \<open>States reachable from an initial one by a step relation.\<close>

inductive reach :: "('s \<Rightarrow> bool) \<Rightarrow> ('s \<Rightarrow> 's \<Rightarrow> bool) \<Rightarrow> 's \<Rightarrow> bool"
  for init :: "'s \<Rightarrow> bool" and step :: "'s \<Rightarrow> 's \<Rightarrow> bool"
where
  reach_init: "init s \<Longrightarrow> reach init step s"
| reach_step: "reach init step s \<Longrightarrow> step s t \<Longrightarrow> reach init step t"

subsection \<open>Lemmas on the strings functions\<close>

lemma strings_Split_not_Nil [simp]: "strings_Split s c \<noteq> []"
  by (cases s) (auto split: list.splits)

lemma strings_Split_no_sep: "c \<notin> set s \<Longrightarrow> strings_Split s c = [s]"
  by (induction s) auto

lemma strings_Split_append:
  "c \<notin> set p \<Longrightarrow> strings_Split (p @ c # r) c = p # strings_Split r c"
  by (induction p) auto

lemma strings_Join_Cons:
  "ys \<noteq> [] \<Longrightarrow> strings_Join (x # ys) sep = x @ sep @ strings_Join ys sep"
  by (cases ys) auto

lemma strings_Split_Join:
  assumes "\<forall>p \<in> set ps. c \<notin> set p" and "ps \<noteq> []"
  shows "strings_Split (strings_Join ps [c]) c = ps"
  using assms
proof (induction ps)
  case Nil
  then show ?case by simp
next
  case (Cons p ps)
  then show ?case
    by (cases ps) (simp_all add: strings_Split_no_sep strings_Split_append)
qed

lemma strings_Join_Split: "strings_Join (strings_Split s c) [c] = s"
proof (induction s)
  case Nil
  then show ?case by simp
next
  case (Cons x s)
  obtain h t where ht: "strings_Split s c = h # t"
    by (cases "strings_Split s c") auto
  then show ?case using Cons by (cases t) auto
qed

lemma strings_Split_pieces: "p \<in> set (strings_Split s c) \<Longrightarrow> c \<notin> set p"
proof (induction s arbitrary: p)
  case Nil
  then show ?case by simp
next
  case (Cons x s)
  obtain h t where ht: "strings_Split s c = h # t"
    by (cases "strings_Split s c") auto
  then show ?case using Cons by (auto split: if_splits)
qed

lemma strings_SplitN2_cut:
  "c \<notin> set p \<Longrightarrow> strings_SplitN2 (p @ c # r) c = [p, r]"
  by (auto simp: strings_SplitN2_def takeWhile_append dropWhile_append)

lemma length_strings_SplitN2:
  "length (strings_SplitN2 s c) = (if c \<in> set s then 2 else 1)"
  by (simp add: strings_SplitN2_def)

lemma strings_SplitN2_some:
  assumes "c \<in> set s"
  obtains p r where "s = p @ c # r" and "c \<notin> set p" and "strings_SplitN2 s c = [p, r]"
  using split_list_first [OF assms] strings_SplitN2_cut by blast

subsection \<open>Invariants\<close>

lemma run_all_append: "run_all f s (xs @ ys) = run_all f (run_all f s xs) ys"
  by (induction xs arbitrary: s) auto

lemma run_all_invariant:
  assumes "\<And>s e. P s \<Longrightarrow> P (f s e)" and "P s"
  shows "P (run_all f s es)"
  using assms(2) by (induction es arbitrary: s) (auto intro: assms(1))

text \<open>A predicate that holds initially and is kept by every step holds in every reachable state.\<close>

locale transition_system =
  fixes init :: "'s \<Rightarrow> bool" and step :: "'s \<Rightarrow> 's \<Rightarrow> bool" and invar :: "'s \<Rightarrow> bool"
  assumes invar_init: "init s \<Longrightarrow> invar s"
    and invar_step: "invar s \<Longrightarrow> step s t \<Longrightarrow> invar t"
begin

lemma reach_invar: "reach init step s \<Longrightarrow> invar s"
  by (induction rule: reach.induct) (auto intro: invar_init invar_step)

end

lemma reach_mono:
  assumes "\<And>s t. step s t \<Longrightarrow> step' s t" and "reach init step s"
  shows "reach init step' s"
  using assms(2) by (induction rule: reach.induct) (auto intro: reach.intros assms(1))

subsection \<open>Association lists as Go maps\<close>

lemma wf_map_update: "wf_map m \<Longrightarrow> wf_map (AList.update k v m)"
  by (simp add: wf_map_def distinct_update)

lemma wf_map_delete: "wf_map m \<Longrightarrow> wf_map (AList.delete k m)"
  by (simp add: wf_map_def distinct_delete)

lemma wf_map_Nil [simp]: "wf_map []"
  by (simp add: wf_map_def)

lemma set_map_of: "wf_map m \<Longrightarrow> (k, v) \<in> set m \<longleftrightarrow> map_of m k = Some v"
  by (simp add: wf_map_def)

lemma mset_delete:
  assumes "wf_map m" "map_of m k = Some v"
  shows "mset (AList.delete k m) = mset m - {#(k, v)#}"
  using assms
proof (induction m)
  case Nil
  then show ?case by simp
next
  case (Cons kv m)
  show ?case
  proof (cases "fst kv = k")
    case True
    with Cons.prems have "k \<notin> fst ` set m" "kv = (k, v)" by (auto simp: wf_map_def)
    then show ?thesis by (simp add: delete_idem)
  next
    case False
    with Cons.prems have ih: "mset (AList.delete k m) = mset m - {#(k, v)#}"
      and mem: "(k, v) \<in># mset m"
      by (auto intro!: Cons.IH simp: wf_map_def dest: map_of_SomeD split: if_splits)
    have "mset (AList.delete k (kv # m)) = {#kv#} + (mset m - {#(k, v)#})"
      using False ih by (cases kv) simp
    also have "\<dots> = mset (kv # m) - {#(k, v)#}" using mem by simp
    finally show ?thesis .
  qed
qed

lemma update_new: "map_of m k = None \<Longrightarrow> AList.update k v m = m @ [(k, v)]"
  by (induction m) auto

end
