(* ===== verification/QueueWorker.thy ===== *)
theory QueueWorker
  imports GoChan
begin

text \<open>
  \<^verbatim>\<open>internal/queue/worker.go\<close>: the worker goroutines that both queues share, as a step relation. A
  worker's job channel is unbuffered; the pool is a buffered channel of the job channels of idle
  workers, a job channel being known by its worker's index.

  What running a job does is the argument \<open>run\<close>, on an environment of any type: \<^term>\<open>None\<close> while
  the job cannot proceed (it may itself send on a full channel). The list of executed jobs is a
  history variable.
\<close>

text \<open>Where a worker's \<^verbatim>\<open>dispatcher\<close> loop is.\<close>

datatype 'j wpc =
    WSelect      \<comment> \<open>in the select\<close>
  | WRun 'j      \<comment> \<open>received a job, before or inside \<^verbatim>\<open>j.Job()\<close>\<close>
  | WReturn      \<comment> \<open>before \<^verbatim>\<open>w.pool <- w.jobChan\<close>\<close>
  | WDone        \<comment> \<open>before \<^verbatim>\<open>w.wg.Done()\<close>\<close>
  | WQuit        \<comment> \<open>took the quit case, before \<^verbatim>\<open><-w.pool\<close>\<close>
  | WClose       \<comment> \<open>before \<^verbatim>\<open>close(w.jobChan)\<close>\<close>
  | WExit

record 'j wpool =
  pool_ch :: "nat chan"
  wpcs :: "'j wpc list"
  quits :: "bool list"
  jobclosed :: "bool list"
  wg :: int
  executed :: "'j list"
  panicked :: bool

text \<open>\<^verbatim>\<open>newWorker\<close> for a worker in a slot, and \<^verbatim>\<open>Start\<close>: it offers its job channel, then loops.\<close>

definition newWorker :: "'j wpool \<Rightarrow> nat \<Rightarrow> 'j wpool" where
  "newWorker w i =
     w\<lparr>wpcs := (wpcs w)[i := WSelect], quits := (quits w)[i := False],
       jobclosed := (jobclosed w)[i := False]\<rparr>"

definition worker_Start :: "'j wpool \<Rightarrow> nat \<Rightarrow> 'j wpool outcome option" where
  "worker_Start w i =
     (case chan_send (pool_ch w) i of
        Sent c \<Rightarrow> Some (Ok (w\<lparr>pool_ch := c\<rparr>))
      | SendBlocks \<Rightarrow> None
      | SendPanics \<Rightarrow> Some (Panic ''send on closed channel''))"

text \<open>\<^verbatim>\<open>Stop\<close> closes the quit channel, which panics when it is closed already.\<close>

definition worker_Stop :: "'j wpool \<Rightarrow> nat \<Rightarrow> 'j wpool" where
  "worker_Stop w i =
     w\<lparr>quits := (quits w)[i := True], panicked := (panicked w \<or> quits w ! i)\<rparr>"

text \<open>A queue's dispatcher hands a job to worker \<open>i\<close>: the two meet on the unbuffered channel.\<close>

definition handover :: "'j wpool \<Rightarrow> nat \<Rightarrow> 'j \<Rightarrow> 'j wpool" where
  "handover w i j = w\<lparr>wpcs := (wpcs w)[i := WRun j]\<rparr>"

definition can_receive :: "'j wpool \<Rightarrow> nat \<Rightarrow> bool" where
  "can_receive w i \<longleftrightarrow> i < length (wpcs w) \<and> wpcs w ! i = WSelect \<and> \<not> jobclosed w ! i"

inductive worker_step ::
  "('j \<Rightarrow> 'e \<Rightarrow> 'e option) \<Rightarrow> 'e \<times> 'j wpool \<Rightarrow> 'e \<times> 'j wpool \<Rightarrow> bool"
  for run :: "'j \<Rightarrow> 'e \<Rightarrow> 'e option"
where
  w_run: "i < length (wpcs w) \<Longrightarrow> wpcs w ! i = WRun j \<Longrightarrow> run j e = Some e' \<Longrightarrow>
    worker_step run (e, w)
      (e', w\<lparr>wpcs := (wpcs w)[i := WReturn], executed := executed w @ [j]\<rparr>)"
| w_return: "i < length (wpcs w) \<Longrightarrow> wpcs w ! i = WReturn \<Longrightarrow> chan_send (pool_ch w) i = Sent c \<Longrightarrow>
    worker_step run (e, w) (e, w\<lparr>wpcs := (wpcs w)[i := WDone], pool_ch := c\<rparr>)"
| w_return_panic: "i < length (wpcs w) \<Longrightarrow> wpcs w ! i = WReturn \<Longrightarrow>
    chan_send (pool_ch w) i = SendPanics \<Longrightarrow>
    worker_step run (e, w) (e, w\<lparr>panicked := True\<rparr>)"
| w_done: "i < length (wpcs w) \<Longrightarrow> wpcs w ! i = WDone \<Longrightarrow>
    worker_step run (e, w)
      (e, w\<lparr>wpcs := (wpcs w)[i := WSelect], wg := wg w - 1, panicked := (panicked w \<or> wg w < 1)\<rparr>)"
| w_quit: "i < length (wpcs w) \<Longrightarrow> wpcs w ! i = WSelect \<Longrightarrow> quits w ! i \<Longrightarrow>
    worker_step run (e, w) (e, w\<lparr>wpcs := (wpcs w)[i := WQuit]\<rparr>)"
| w_unpool: "i < length (wpcs w) \<Longrightarrow> wpcs w ! i = WQuit \<Longrightarrow> chan_recv (pool_ch w) = Received k c \<Longrightarrow>
    worker_step run (e, w) (e, w\<lparr>wpcs := (wpcs w)[i := WClose], pool_ch := c\<rparr>)"
| w_unpool_closed: "i < length (wpcs w) \<Longrightarrow> wpcs w ! i = WQuit \<Longrightarrow>
    chan_recv (pool_ch w) = RecvZero \<Longrightarrow>
    worker_step run (e, w) (e, w\<lparr>wpcs := (wpcs w)[i := WClose]\<rparr>)"
| w_close: "i < length (wpcs w) \<Longrightarrow> wpcs w ! i = WClose \<Longrightarrow>
    worker_step run (e, w)
      (e, w\<lparr>wpcs := (wpcs w)[i := WExit], jobclosed := (jobclosed w)[i := True],
            panicked := (panicked w \<or> jobclosed w ! i)\<rparr>)"

subsection \<open>Accounting\<close>

text \<open>
  A worker that has taken a job and not yet called \<^verbatim>\<open>Done\<close> is busy. The slack of the wait group is
  what it counts beyond the busy workers; the jobs of the pool are those executed and those about to
  be. Worker steps change neither.
\<close>

fun wpc_busy :: "'j wpc \<Rightarrow> nat" where
  "wpc_busy (WRun j) = 1"
| "wpc_busy WReturn = 1"
| "wpc_busy WDone = 1"
| "wpc_busy _ = 0"

fun wpc_jobs :: "'j wpc \<Rightarrow> 'j list" where
  "wpc_jobs (WRun j) = [j]"
| "wpc_jobs _ = []"

definition busy :: "'j wpool \<Rightarrow> nat" where
  "busy w = sum_list (map wpc_busy (wpcs w))"

definition slack :: "'j wpool \<Rightarrow> int" where
  "slack w = wg w - int (busy w)"

definition wjobs :: "'j wpool \<Rightarrow> 'j multiset" where
  "wjobs w = mset (executed w) + mset (concat (map wpc_jobs (wpcs w)))"

definition sized :: "nat \<Rightarrow> 'j wpool \<Rightarrow> bool" where
  "sized n w \<longleftrightarrow> length (wpcs w) = n \<and> length (quits w) = n \<and> length (jobclosed w) = n"

lemma busy_update [inv_simps]:
  "i < length xs \<Longrightarrow>
     int (sum_list (map wpc_busy (xs[i := v]))) =
       int (sum_list (map wpc_busy xs)) - int (wpc_busy (xs ! i)) + int (wpc_busy v)"
  using sum_list_map_update [of i xs wpc_busy v] by linarith

lemma jobs_update_Run [inv_simps]:
  "i < length xs \<Longrightarrow> wpc_jobs (xs ! i) = [] \<Longrightarrow>
     mset (concat (map wpc_jobs (xs[i := WRun j]))) = add_mset j (mset (concat (map wpc_jobs xs)))"
  using mset_concat_map_update [of i xs wpc_jobs "WRun j"] by simp

lemma jobs_update_ran:
  "i < length xs \<Longrightarrow> xs ! i = WRun j \<Longrightarrow>
     mset (concat (map wpc_jobs xs)) = add_mset j (mset (concat (map wpc_jobs (xs[i := WReturn]))))"
  using mset_concat_map_update [of i xs wpc_jobs WReturn] by simp

lemmas wpool_defs = slack_def busy_def wjobs_def sized_def

lemma worker_step_slack:
  assumes "worker_step run (e, w) (e', w')"
  shows "slack w' = slack w"
  using assms by cases (simp_all add: wpool_defs inv_simps)

lemma worker_step_wjobs:
  assumes "worker_step run (e, w) (e', w')"
  shows "wjobs w' = wjobs w"
  using assms
proof cases
  case (w_run i j)
  then show ?thesis using jobs_update_ran [of i "wpcs w" j] by (simp add: wjobs_def)
qed (simp_all add: wjobs_def mset_concat_map_Nil)

lemma worker_step_sized:
  assumes "worker_step run (e, w) (e', w')"
  shows "sized n w' \<longleftrightarrow> sized n w"
  using assms by cases (simp_all add: sized_def)

lemma worker_step_pool_ok:
  assumes "worker_step run (e, w) (e', w')" and "chan_ok (pool_ch w)"
  shows "chan_ok (pool_ch w')"
  using assms by cases (auto intro: chan_ok_send chan_ok_recv)

lemma handover_acct [inv_simps]:
  assumes "can_receive w i"
  shows "slack (handover w i j) = slack w - 1" "wjobs (handover w i j) = add_mset j (wjobs w)"
    "sized n (handover w i j) = sized n w"
  using assms by (simp_all add: handover_def can_receive_def wpool_defs inv_simps)

end
