(* ===== verification/JobQueue.thy ===== *)
theory JobQueue
  imports GoChan
begin

text \<open>
  \<^verbatim>\<open>internal/queue/job.go\<close>, the two kinds of jobs, and the contract of \<^verbatim>\<open>internal/queue/queue.go\<close>: what
  a caller of a \<^verbatim>\<open>Queuer\<close> may rely on, as a locale that both queues interpret.
\<close>

subsection \<open>Asynchronous jobs\<close>

text \<open>A callback acts on the environment.\<close>

record ('v, 'e) job =
  job_v :: 'v
  job_callback :: "'v \<Rightarrow> 'e \<Rightarrow> 'e"

definition NewJob :: "'v \<Rightarrow> ('v \<Rightarrow> 'e \<Rightarrow> 'e) \<Rightarrow> ('v, 'e) job" where
  "NewJob v fn = \<lparr>job_v = v, job_callback = fn\<rparr>"

definition job_Job :: "('v, 'e) job \<Rightarrow> 'e \<Rightarrow> 'e" where
  "job_Job j e = job_callback j (job_v j) e"

subsection \<open>Synchronous jobs\<close>

record ('v, 'r) syncJob =
  sj_err :: "goerror option"
  sj_result :: "'r chan"
  sj_v :: 'v
  sj_callback :: "'v \<Rightarrow> 'r \<times> goerror option"

definition NewSyncJob :: "'v \<Rightarrow> ('v \<Rightarrow> 'r \<times> goerror option) \<Rightarrow> ('v, 'r) syncJob" where
  "NewSyncJob v fn = \<lparr>sj_err = None, sj_result = make_chan 1, sj_v = v, sj_callback = fn\<rparr>"

text \<open>\<^term>\<open>None\<close> while the send blocks.\<close>

definition syncJob_Job :: "('v, 'r) syncJob \<Rightarrow> ('v, 'r) syncJob outcome option" where
  "syncJob_Job j =
     (let (result, err) = sj_callback j (sj_v j) in
      if err \<noteq> None
      then Some (bind_outcome (chan_close (sj_result j)) (\<lambda>c. Ok (j\<lparr>sj_err := err, sj_result := c\<rparr>)))
      else (case chan_send (sj_result j) result of
              SendBlocks \<Rightarrow> None
            | SendPanics \<Rightarrow> Some (Panic ''send on closed channel'')
            | Sent c \<Rightarrow> Some (bind_outcome (chan_close c) (\<lambda>c. Ok (j\<lparr>sj_result := c\<rparr>)))))"

text \<open>Receiving from the channel that \<^verbatim>\<open>Wait\<close> returns.\<close>

definition syncJob_Wait :: "('v, 'r) syncJob \<Rightarrow> 'r recv_result" where
  "syncJob_Wait j = chan_recv (sj_result j)"

definition syncJob_Error :: "('v, 'r) syncJob \<Rightarrow> goerror option" where
  "syncJob_Error j = sj_err j"

subsection \<open>The contract of a queue\<close>

text \<open>
  Jobs are conserved: every job that was accepted (its \<^verbatim>\<open>wg.Add(1)\<close> has happened) has been executed
  or is in flight, and the wait group counts at least the jobs in flight. So a caller that sees the
  wait group at zero, as \<^verbatim>\<open>Terminate\<close> does before it closes anything, knows that every accepted job
  has run exactly once.
\<close>

locale job_queue = transition_system init step invar
  for init :: "'s \<Rightarrow> bool" and step :: "'s \<Rightarrow> 's \<Rightarrow> bool" and invar :: "'s \<Rightarrow> bool" +
  fixes accepted :: "'s \<Rightarrow> 'j list" and ran :: "'s \<Rightarrow> 'j list"
    and in_flight :: "'s \<Rightarrow> 'j multiset" and count :: "'s \<Rightarrow> int"
  assumes conserve: "invar s \<Longrightarrow> mset (accepted s) = mset (ran s) + in_flight s"
    and covered: "invar s \<Longrightarrow> int (size (in_flight s)) \<le> count s"
begin

lemma drained:
  assumes "reach init step s" and "count s = 0"
  shows "mset (ran s) = mset (accepted s)"
proof -
  from assms(1) have inv: "invar s" by (rule reach_invar)
  then have "in_flight s = {#}" using covered [of s] assms(2) by simp
  then show ?thesis using conserve [OF inv] by simp
qed

lemma at_most_once:
  assumes "reach init step s"
  shows "mset (ran s) \<subseteq># mset (accepted s)"
  using conserve [OF reach_invar [OF assms]] by simp

lemma count_nonneg: "reach init step s \<Longrightarrow> 0 \<le> count s"
  using covered [OF reach_invar, of s] by linarith

end

subsection \<open>Properties\<close>

text \<open>
  A synchronous job delivers its outcome exactly once: run once, it neither blocks nor panics; on
  success the first receive yields the callback's result, every later one yields nothing, and no
  error is set; on failure the first receive already yields nothing and the callback's error is
  set. Running it a second time panics.
\<close>

theorem syncJob_once:
  assumes "fn v = (result, err)"
  shows "\<exists>j. syncJob_Job (NewSyncJob v fn) = Some (Ok j) \<and> syncJob_Error j = err \<and>
           (if err = None
            then \<exists>c. syncJob_Wait j = Received result c \<and> chan_recv c = RecvZero
            else syncJob_Wait j = RecvZero) \<and>
           (\<exists>p. syncJob_Job j = Some (Panic p))"
  using assms
  by (auto simp: syncJob_Job_def NewSyncJob_def make_chan_def chan_send_def chan_close_def
      syncJob_Error_def syncJob_Wait_def chan_recv_def)

theorem syncJob_once_witness:
  "\<exists>j. syncJob_Job (NewSyncJob (3::nat) (\<lambda>v. (v + 1, None))) = Some (Ok j) \<and>
     (\<exists>c. syncJob_Wait j = Received 4 c)"
  using syncJob_once [of "\<lambda>v. (v + 1, None)" "3::nat" 4 None] by auto

end
