(* ===== verification/ChanQueue.thy ===== *)
theory ChanQueue
  imports QueueWorker JobQueue "HOL-Library.Word"
begin

text \<open>
  \<^verbatim>\<open>internal/queue/chan_queue.go\<close>: the queue the ingester uses, as a step relation in which the
  goroutines that call \<^verbatim>\<open>Push\<close>, the dispatcher, the workers and the goroutine that calls \<^verbatim>\<open>Terminate\<close>
  interleave. One step is one channel, atomic or wait-group operation.
\<close>

text \<open>Where the dispatcher is.\<close>

datatype 'j dpc =
    DIdle         \<comment> \<open>not started\<close>
  | DRange        \<comment> \<open>before the next receive of the range loop\<close>
  | DGot 'j       \<comment> \<open>has a job, before \<^verbatim>\<open><-q.workerPool\<close>\<close>
  | DSend 'j nat  \<comment> \<open>has a worker, before \<^verbatim>\<open>worker <- job\<close>\<close>
  | DStuck 'j     \<comment> \<open>received a nil channel from the closed pool: the send never proceeds\<close>
  | DExit

text \<open>A goroutine inside \<^verbatim>\<open>Push\<close>: past the running check, or past \<^verbatim>\<open>wg.Add(1)\<close>.\<close>

datatype 'j ppc = PChecked 'j | PAdded 'j

text \<open>Where \<^verbatim>\<open>Terminate\<close> is.\<close>

datatype tpc = TNone | TWait | TCloseJobs | TStop nat | TClosePool | TDone

record ('j, 'e) cqueue =
  env :: 'e
  wps :: "'j wpool"
  running :: "32 word"
  jobq :: "'j chan"
  disp :: "'j dpc"
  pushers :: "'j ppc list"
  term_pc :: tpc
  accepted :: "'j list"

definition NewQueue :: "nat \<Rightarrow> nat \<Rightarrow> 'e \<Rightarrow> ('j, 'e) cqueue" where
  "NewQueue maxCapacity maxThread e =
     \<lparr>env = e,
      wps = \<lparr>pool_ch = make_chan maxThread, wpcs = replicate maxThread WExit,
             quits = replicate maxThread False, jobclosed = replicate maxThread False,
             wg = 0, executed = [], panicked = False\<rparr>,
      running = 0, jobq = make_chan maxCapacity, disp = DIdle, pushers = [], term_pc = TNone,
      accepted = []\<rparr>"

text \<open>
  \<^verbatim>\<open>Run\<close>: nothing when the queue is running; otherwise it makes and starts the workers one by one and
  then the dispatcher. Starting a worker sends on the pool, which may block (\<^term>\<open>None\<close>) or panic.
\<close>

fun start_workers :: "nat list \<Rightarrow> 'j wpool \<Rightarrow> 'j wpool outcome option" where
  "start_workers [] w = Some (Ok w)"
| "start_workers (i # is) w =
     (case worker_Start (newWorker w i) i of
        None \<Rightarrow> None
      | Some (Ok w) \<Rightarrow> start_workers is w
      | Some (Err e) \<Rightarrow> Some (Err e)
      | Some (Panic p) \<Rightarrow> Some (Panic p))"

definition cq_Run :: "('j, 'e) cqueue \<Rightarrow> ('j, 'e) cqueue outcome option" where
  "cq_Run q =
     (if running q = 1 then Some (Ok q)
      else (let q = q\<lparr>running := 1\<rparr> in
            case start_workers [0..<length (wpcs (wps q))] (wps q) of
              None \<Rightarrow> None
            | Some (Ok w) \<Rightarrow> Some (Ok (q\<lparr>wps := w, disp := DRange\<rparr>))
            | Some (Err e) \<Rightarrow> Some (Err e)
            | Some (Panic p) \<Rightarrow> Some (Panic p)))"

definition GetJobCount :: "('j, 'e) cqueue \<Rightarrow> nat" where
  "GetJobCount q = length (ch_buf (jobq q))"

definition cq_panic :: "('j, 'e) cqueue \<Rightarrow> ('j, 'e) cqueue" where
  "cq_panic q = q\<lparr>wps := (wps q)\<lparr>panicked := True\<rparr>\<rparr>"

inductive cq_rule ::
  "('j \<Rightarrow> 'e \<Rightarrow> 'e option) \<Rightarrow> ('j, 'e) cqueue \<Rightarrow> ('j, 'e) cqueue \<Rightarrow> bool"
  for run :: "'j \<Rightarrow> 'e \<Rightarrow> 'e option"
where
  cq_worker: "worker_step run (env q, wps q) (e', w') \<Longrightarrow>
    cq_rule run q (q\<lparr>env := e', wps := w'\<rparr>)"
| cq_push_check: "running q = 1 \<Longrightarrow>
    cq_rule run q (q\<lparr>pushers := pushers q @ [PChecked j]\<rparr>)"
| cq_push_add: "pushers q = xs @ PChecked j # ys \<Longrightarrow>
    cq_rule run q (q\<lparr>pushers := xs @ PAdded j # ys, wps := (wps q)\<lparr>wg := wg (wps q) + 1\<rparr>,
                     accepted := accepted q @ [j]\<rparr>)"
| cq_push_send: "pushers q = xs @ PAdded j # ys \<Longrightarrow> chan_send (jobq q) j = Sent c \<Longrightarrow>
    cq_rule run q (q\<lparr>pushers := xs @ ys, jobq := c\<rparr>)"
| cq_push_meet: "pushers q = xs @ PAdded j # ys \<Longrightarrow> ch_cap (jobq q) = 0 \<Longrightarrow>
    \<not> ch_closed (jobq q) \<Longrightarrow> disp q = DRange \<Longrightarrow>
    cq_rule run q (q\<lparr>pushers := xs @ ys, disp := DGot j\<rparr>)"
| cq_push_panic: "pushers q = xs @ PAdded j # ys \<Longrightarrow> chan_send (jobq q) j = SendPanics \<Longrightarrow>
    cq_rule run q (cq_panic q)"
| cq_disp_recv: "disp q = DRange \<Longrightarrow> chan_recv (jobq q) = Received j c \<Longrightarrow>
    cq_rule run q (q\<lparr>disp := DGot j, jobq := c\<rparr>)"
| cq_disp_end: "disp q = DRange \<Longrightarrow> chan_recv (jobq q) = RecvZero \<Longrightarrow>
    cq_rule run q (q\<lparr>disp := DExit\<rparr>)"
| cq_disp_worker: "disp q = DGot j \<Longrightarrow> chan_recv (pool_ch (wps q)) = Received i c \<Longrightarrow>
    cq_rule run q (q\<lparr>disp := DSend j i, wps := (wps q)\<lparr>pool_ch := c\<rparr>\<rparr>)"
| cq_disp_nil: "disp q = DGot j \<Longrightarrow> chan_recv (pool_ch (wps q)) = RecvZero \<Longrightarrow>
    cq_rule run q (q\<lparr>disp := DStuck j\<rparr>)"
| cq_disp_send: "disp q = DSend j i \<Longrightarrow> can_receive (wps q) i \<Longrightarrow>
    cq_rule run q (q\<lparr>disp := DRange, wps := handover (wps q) i j\<rparr>)"
| cq_disp_panic: "disp q = DSend j i \<Longrightarrow> i < length (jobclosed (wps q)) \<Longrightarrow> jobclosed (wps q) ! i \<Longrightarrow>
    cq_rule run q (cq_panic q)"
| cq_term_begin: "term_pc q = TNone \<Longrightarrow> running q = 1 \<Longrightarrow>
    cq_rule run q (q\<lparr>running := 0, term_pc := TWait\<rparr>)"
| cq_term_waited: "term_pc q = TWait \<Longrightarrow> wg (wps q) = 0 \<Longrightarrow>
    cq_rule run q (q\<lparr>term_pc := TCloseJobs\<rparr>)"
| cq_term_close_jobs: "term_pc q = TCloseJobs \<Longrightarrow> chan_close (jobq q) = Ok c \<Longrightarrow>
    cq_rule run q (q\<lparr>jobq := c, term_pc := TStop 0\<rparr>)"
| cq_term_stop: "term_pc q = TStop i \<Longrightarrow> i < length (wpcs (wps q)) \<Longrightarrow>
    cq_rule run q (q\<lparr>wps := worker_Stop (wps q) i, term_pc := TStop (Suc i)\<rparr>)"
| cq_term_stopped: "term_pc q = TStop i \<Longrightarrow> i = length (wpcs (wps q)) \<Longrightarrow>
    cq_rule run q (q\<lparr>term_pc := TClosePool\<rparr>)"
| cq_term_close_pool: "term_pc q = TClosePool \<Longrightarrow> chan_close (pool_ch (wps q)) = Ok c \<Longrightarrow>
    cq_rule run q (q\<lparr>wps := (wps q)\<lparr>pool_ch := c\<rparr>, term_pc := TDone\<rparr>)"

text \<open>A panic ends the process: no step follows it.\<close>

definition cq_step ::
  "('j \<Rightarrow> 'e \<Rightarrow> 'e option) \<Rightarrow> ('j, 'e) cqueue \<Rightarrow> ('j, 'e) cqueue \<Rightarrow> bool" where
  "cq_step run q q' \<longleftrightarrow> \<not> panicked (wps q) \<and> cq_rule run q q'"

definition cq_init :: "nat \<Rightarrow> nat \<Rightarrow> 'e \<Rightarrow> ('j, 'e) cqueue \<Rightarrow> bool" where
  "cq_init maxCapacity maxThread e q \<longleftrightarrow> cq_Run (NewQueue maxCapacity maxThread e) = Some (Ok q)"

subsection \<open>Accounting\<close>

fun ppc_jobs :: "'j ppc \<Rightarrow> 'j list" where
  "ppc_jobs (PAdded j) = [j]"
| "ppc_jobs (PChecked j) = []"

fun dpc_jobs :: "'j dpc \<Rightarrow> 'j list" where
  "dpc_jobs (DGot j) = [j]"
| "dpc_jobs (DSend j i) = [j]"
| "dpc_jobs (DStuck j) = [j]"
| "dpc_jobs _ = []"

text \<open>Jobs accepted that no worker has yet: in a pushing goroutine, buffered, or with the dispatcher.\<close>

definition waiting :: "('j, 'e) cqueue \<Rightarrow> 'j multiset" where
  "waiting q = mset (concat (map ppc_jobs (pushers q))) + mset (ch_buf (jobq q)) +
     mset (dpc_jobs (disp q))"

definition cq_in_flight :: "('j, 'e) cqueue \<Rightarrow> 'j multiset" where
  "cq_in_flight q = waiting q + mset (concat (map wpc_jobs (wpcs (wps q))))"

text \<open>
  The wait group counts exactly the jobs that wait and the busy workers; every accepted job waits,
  is being run, or has been executed; the channels are within their capacities.
\<close>

definition cq_acct :: "nat \<Rightarrow> nat \<Rightarrow> ('j, 'e) cqueue \<Rightarrow> bool" where
  "cq_acct cap n q \<longleftrightarrow>
     slack (wps q) = int (size (waiting q)) \<and>
     mset (accepted q) = wjobs (wps q) + waiting q \<and>
     ch_cap (jobq q) = cap \<and> chan_ok (jobq q) \<and> sized n (wps q)"

lemmas cq_acct_simps = cq_acct_def waiting_def

subsection \<open>Lemmas\<close>

lemma start_workers_eq:
  assumes "length (ch_buf (pool_ch w)) + length is \<le> ch_cap (pool_ch w)" "\<not> ch_closed (pool_ch w)"
  shows "start_workers is w =
    Some (Ok (w\<lparr>pool_ch := (pool_ch w)\<lparr>ch_buf := ch_buf (pool_ch w) @ is\<rparr>,
      wpcs := foldl (\<lambda>xs i. xs[i := WSelect]) (wpcs w) is,
      quits := foldl (\<lambda>xs i. xs[i := False]) (quits w) is,
      jobclosed := foldl (\<lambda>xs i. xs[i := False]) (jobclosed w) is\<rparr>))"
  using assms
  by (induction "is" arbitrary: w)
     (auto simp: worker_Start_def newWorker_def chan_send_def)

lemma foldl_list_update_upt:
  "k \<le> length xs \<Longrightarrow> foldl (\<lambda>xs i. xs[i := v]) xs [0..<k] = replicate k v @ drop k xs"
proof (induction k)
  case 0
  then show ?case by simp
next
  case (Suc k)
  then have "drop k xs = xs ! k # drop (Suc k) xs" by (simp add: Cons_nth_drop_Suc)
  with Suc show ?case by (simp add: list_update_append replicate_append_same)
qed

lemma start_workers_fresh:
  "start_workers [0..<n]
     \<lparr>pool_ch = make_chan n, wpcs = replicate n WExit, quits = replicate n False,
      jobclosed = replicate n False, wg = 0, executed = [], panicked = False\<rparr> =
   Some (Ok \<lparr>pool_ch = \<lparr>ch_buf = [0..<n], ch_cap = n, ch_closed = False\<rparr>,
             wpcs = replicate n WSelect, quits = replicate n False,
             jobclosed = replicate n False, wg = 0, executed = [], panicked = False\<rparr>)"
  by (subst start_workers_eq) (simp_all add: make_chan_def foldl_list_update_upt)

lemma cq_init_eq:
  "cq_init cap n e q \<longleftrightarrow>
     q = (NewQueue cap n e)\<lparr>running := 1, disp := DRange,
       wps := \<lparr>pool_ch = \<lparr>ch_buf = [0..<n], ch_cap = n, ch_closed = False\<rparr>,
               wpcs = replicate n WSelect, quits = replicate n False,
               jobclosed = replicate n False, wg = 0, executed = [], panicked = False\<rparr>\<rparr>"
  by (auto simp: cq_init_def cq_Run_def NewQueue_def Let_def start_workers_fresh)

lemma idle_jobs: "concat (map wpc_jobs (replicate n WSelect)) = []"
  by (induction n) auto

lemma cq_acct_init:
  fixes q :: "('j, 'e) cqueue"
  assumes "cq_init cap n e q"
  shows "cq_acct cap n q"
proof -
  have "concat (map wpc_jobs (replicate n (WSelect :: 'j wpc))) = []"
    by (rule idle_jobs)
  with assms show ?thesis
    by (simp add: cq_init_eq cq_acct_simps NewQueue_def make_chan_def wpool_defs chan_ok_def sum_list_replicate)
qed

lemma cq_acct_rule:
  assumes "cq_rule run q q'" and "cq_acct cap n q"
  shows "cq_acct cap n q'"
  using assms
proof cases
  case (cq_worker e' w')
  then show ?thesis
    using assms(2) worker_step_slack worker_step_wjobs worker_step_sized
    by (fastforce simp: cq_acct_simps)
next
  case (cq_push_send xs j ys c)
  then show ?thesis using assms(2) chan_ok_send
    by (auto simp: cq_acct_simps chan_send_Sent_iff chan_ok_def)
next
  case (cq_disp_recv j c)
  then show ?thesis using assms(2)
    by (cases c) (auto simp: cq_acct_simps chan_recv_Received_iff chan_ok_def)
next
  case (cq_disp_send j i)
  then show ?thesis using assms(2) by (auto simp: cq_acct_simps inv_simps)
qed (auto simp: cq_acct_simps wpool_defs cq_panic_def worker_Stop_def chan_close_def chan_ok_def
      split: if_splits)

lemma cq_acct_step: "cq_step run q q' \<Longrightarrow> cq_acct cap n q \<Longrightarrow> cq_acct cap n q'"
  by (auto simp: cq_step_def intro: cq_acct_rule)

text \<open>The wait group counts the jobs in flight and the workers that have run theirs but not said so.\<close>

lemma wpc_jobs_busy: "length (wpc_jobs p) \<le> wpc_busy p"
  by (cases p) auto

lemma jobs_le_busy: "length (concat (map wpc_jobs xs)) \<le> sum_list (map wpc_busy xs)"
proof (induction xs)
  case Nil
  then show ?case by simp
next
  case (Cons p xs)
  then show ?case using wpc_jobs_busy [of p] by simp
qed

lemma cq_in_flight_le: "cq_acct cap n q \<Longrightarrow> int (size (cq_in_flight q)) \<le> wg (wps q)"
  using jobs_le_busy [of "wpcs (wps q)"]
  by (simp add: cq_acct_def cq_in_flight_def slack_def busy_def)

interpretation cq: job_queue "cq_init cap n e" "cq_step run" "cq_acct cap n" accepted
    "\<lambda>q. executed (wps q)" cq_in_flight "\<lambda>q. wg (wps q)"
  for cap n e run
proof (unfold_locales, goal_cases)
  case (1 q)
  then show ?case by (rule cq_acct_init)
next
  case (2 q q')
  then show ?case by (auto intro: cq_acct_step)
next
  case (3 q)
  then show ?case by (simp add: cq_acct_def cq_in_flight_def wjobs_def)
next
  case (4 q)
  then show ?case by (rule cq_in_flight_le)
qed

end
