(* ===== verification/ChanQueueSafe.thy ===== *)
theory ChanQueueSafe
  imports ChanQueue
begin

text \<open>
  The channel queue under load and shutdown: the invariant of race-free runs (no \<^verbatim>\<open>Push\<close> is between
  its running check and its \<^verbatim>\<open>wg.Add\<close> once \<^verbatim>\<open>Terminate\<close> is past \<^verbatim>\<open>wg.Wait\<close>), that such runs never
  panic, that they always make progress, and the two behaviours that runs without the discipline,
  or with more than one worker, do have.
\<close>

subsection \<open>Race-free runs\<close>

fun past_wait :: "tpc \<Rightarrow> bool" where
  "past_wait TNone = False"
| "past_wait TWait = False"
| "past_wait _ = True"

definition cq_quiet_step ::
  "('j \<Rightarrow> 'e \<Rightarrow> 'e option) \<Rightarrow> ('j, 'e) cqueue \<Rightarrow> ('j, 'e) cqueue \<Rightarrow> bool" where
  "cq_quiet_step run q q' \<longleftrightarrow>
     cq_step run q q' \<and> (past_wait (term_pc q') \<longrightarrow> (\<forall>j. PChecked j \<notin> set (pushers q')))"

fun wpc_leaving :: "'j wpc \<Rightarrow> bool" where
  "wpc_leaving WQuit = True"
| "wpc_leaving WClose = True"
| "wpc_leaving WExit = True"
| "wpc_leaving _ = False"

fun told_to_stop :: "tpc \<Rightarrow> nat \<Rightarrow> bool" where
  "told_to_stop (TStop k) i = (i < k)"
| "told_to_stop TClosePool i = True"
| "told_to_stop TDone i = True"
| "told_to_stop _ i = False"

text \<open>A worker leaves only after it was told to, and closes its channel last.\<close>

definition workers_ok :: "tpc \<Rightarrow> 'j wpool \<Rightarrow> bool" where
  "workers_ok t w \<longleftrightarrow>
     (\<forall>i < length (wpcs w). (wpc_leaving (wpcs w ! i) \<longrightarrow> quits w ! i) \<and>
        (quits w ! i \<longrightarrow> told_to_stop t i) \<and> (jobclosed w ! i \<longrightarrow> wpcs w ! i = WExit))"

definition cq_safe :: "('j, 'e) cqueue \<Rightarrow> bool" where
  "cq_safe q \<longleftrightarrow>
     \<not> panicked (wps q) \<and> workers_ok (term_pc q) (wps q) \<and>
     (running q = 1 \<longrightarrow> term_pc q = TNone) \<and>
     (ch_closed (pool_ch (wps q)) \<longrightarrow> term_pc q = TDone) \<and>
     (ch_closed (jobq q) \<longrightarrow> past_wait (term_pc q) \<and> term_pc q \<noteq> TCloseJobs) \<and>
     (past_wait (term_pc q) \<longrightarrow> wg (wps q) = 0 \<and> pushers q = []) \<and>
     disp q \<noteq> DIdle"

definition cq_inv :: "nat \<Rightarrow> nat \<Rightarrow> ('j, 'e) cqueue \<Rightarrow> bool" where
  "cq_inv cap n q \<longleftrightarrow> cq_acct cap n q \<and> cq_safe q"

text \<open>With the wait group at zero nothing is waiting and no worker is busy.\<close>

lemma acct_idle:
  assumes "cq_acct cap n q" and "wg (wps q) = 0"
  shows "waiting q = {#}" "i < n \<Longrightarrow> wpc_busy (wpcs (wps q) ! i) = 0"
proof -
  have *: "int (size (waiting q)) + int (busy (wps q)) = 0"
    using assms by (simp add: cq_acct_def slack_def)
  then have "size (waiting q) = 0" by linarith
  then show "waiting q = {#}" by simp
  from * have "busy (wps q) = 0" by linarith
  then show "wpc_busy (wpcs (wps q) ! i) = 0" if "i < n"
    using that assms(1) by (auto simp: busy_def cq_acct_def sized_def)
qed

lemma busy_pos:
  assumes "cq_acct cap n q" and "i < n" and "wpc_busy (wpcs (wps q) ! i) = 1"
  shows "1 \<le> wg (wps q)"
proof (rule ccontr)
  assume "\<not> 1 \<le> wg (wps q)"
  moreover have "0 \<le> wg (wps q)" using cq_in_flight_le [OF assms(1)] by linarith
  ultimately have "wg (wps q) = 0" by simp
  with acct_idle(2) [OF assms(1) _ assms(2)] assms(3) show False by simp
qed

lemma waiting_pos: "cq_acct cap n q \<Longrightarrow> waiting q \<noteq> {#} \<Longrightarrow> wg (wps q) \<noteq> 0"
  using acct_idle(1) by blast

lemma workers_ok_update:
  assumes "workers_ok t w" and "i < length (wpcs w)" and "wpcs w ! i \<noteq> WExit"
    and "wpc_leaving p \<longrightarrow> quits w ! i"
  shows "workers_ok t (w\<lparr>wpcs := (wpcs w)[i := p]\<rparr>)"
  using assms by (auto simp: workers_ok_def nth_list_update)

lemma workers_ok_irrel [simp]:
  "workers_ok t (w\<lparr>pool_ch := c\<rparr>) = workers_ok t w"
  "workers_ok t (w\<lparr>wg := k\<rparr>) = workers_ok t w"
  "workers_ok t (w\<lparr>executed := js\<rparr>) = workers_ok t w"
  "workers_ok t (w\<lparr>panicked := b\<rparr>) = workers_ok t w"
  by (simp_all add: workers_ok_def)

lemma worker_step_safe:
  assumes "worker_step run (e, w) (e', w')" and ok: "workers_ok t w" "\<not> panicked w" "sized n w"
    and busy: "\<And>i. i < n \<Longrightarrow> wpc_busy (wpcs w ! i) = 1 \<Longrightarrow> 1 \<le> wg w \<and> \<not> ch_closed (pool_ch w)"
  shows "workers_ok t w' \<and> \<not> panicked w' \<and> ch_closed (pool_ch w') = ch_closed (pool_ch w) \<and>
    (wg w = 0 \<longrightarrow> wg w' = 0)"
  using assms(1)
proof cases
  case (w_run i j)
  then show ?thesis using ok workers_ok_update [of t w i WReturn] by simp
next
  case (w_return i c)
  then show ?thesis using ok workers_ok_update [of t w i WDone]
    by (simp add: chan_send_Sent_iff)
next
  case (w_return_panic i)
  then show ?thesis using ok busy [of i] by (simp add: chan_send_SendPanics_iff sized_def)
next
  case (w_done i)
  then show ?thesis using ok busy [of i] workers_ok_update [of t w i WSelect]
    by (simp add: sized_def)
next
  case (w_quit i)
  then show ?thesis using ok workers_ok_update [of t w i WQuit] by simp
next
  case (w_unpool i k c)
  then show ?thesis using ok workers_ok_update [of t w i WClose]
    by (cases c) (auto simp: chan_recv_Received_iff workers_ok_def)
next
  case (w_unpool_closed i)
  then show ?thesis using ok workers_ok_update [of t w i WClose]
    by (auto simp: workers_ok_def)
next
  case (w_close i)
  then show ?thesis using ok by (auto simp: workers_ok_def nth_list_update sized_def)
qed

lemma cq_safe_worker:
  assumes inv: "cq_inv cap n q" and st: "worker_step run (env q, wps q) (e', w')"
  shows "cq_safe (q\<lparr>env := e', wps := w'\<rparr>)"
proof -
  have acct: "cq_acct cap n q" and safe: "cq_safe q" using inv by (simp_all add: cq_inv_def)
  have "1 \<le> wg (wps q) \<and> \<not> ch_closed (pool_ch (wps q))"
    if "i < n" "wpc_busy (wpcs (wps q) ! i) = 1" for i
    using busy_pos [OF acct that] safe by (auto simp: cq_safe_def)
  moreover have "workers_ok (term_pc q) (wps q)" "\<not> panicked (wps q)" "sized n (wps q)"
    using safe acct by (simp_all add: cq_safe_def cq_acct_def)
  ultimately have "workers_ok (term_pc q) w' \<and> \<not> panicked w' \<and>
    ch_closed (pool_ch w') = ch_closed (pool_ch (wps q)) \<and> (wg (wps q) = 0 \<longrightarrow> wg w' = 0)"
    using worker_step_safe [OF st, of "term_pc q" n] by blast
  then show ?thesis using safe by (auto simp: cq_safe_def)
qed

text \<open>A job on its way keeps \<^verbatim>\<open>Terminate\<close> before the end of its wait.\<close>

lemma waiting_before:
  assumes "cq_inv cap n q" and "waiting q \<noteq> {#}"
  shows "\<not> past_wait (term_pc q)"
  using assms waiting_pos by (auto simp: cq_inv_def cq_safe_def)

lemma waiting_memb:
  "pushers q = xs @ PAdded j # ys \<Longrightarrow> waiting q \<noteq> {#}" "disp q = DGot j \<Longrightarrow> waiting q \<noteq> {#}"
  "disp q = DSend j i \<Longrightarrow> waiting q \<noteq> {#}"
  by (simp_all add: waiting_def)

lemma cq_safe_rule:
  assumes "cq_rule run q q'" and inv: "cq_inv cap n q"
    and quiet: "past_wait (term_pc q') \<longrightarrow> (\<forall>j. PChecked j \<notin> set (pushers q'))"
  shows "cq_safe q'"
  using assms(1)
proof cases
  case (cq_worker e' w')
  then show ?thesis using cq_safe_worker [OF inv] by simp
next
  case (cq_push_panic xs j ys)
  then show ?thesis
    using waiting_before [OF inv waiting_memb(1)] inv
    by (auto simp: cq_inv_def cq_safe_def chan_send_SendPanics_iff)
next
  case (cq_disp_panic j i)
  then show ?thesis
    using waiting_before [OF inv waiting_memb(3)] inv
    by (cases "term_pc q")
       (auto simp: cq_inv_def cq_safe_def cq_acct_def workers_ok_def sized_def)
next
  case (cq_disp_send j i)
  then show ?thesis
    using inv workers_ok_update [of "term_pc q" "wps q" i "WRun j"]
    by (auto simp: cq_inv_def cq_safe_def handover_def can_receive_def)
next
  case cq_term_waited
  then have "waiting q = {#}" using inv acct_idle(1) by (auto simp: cq_inv_def)
  then have "pushers q = []" if "\<forall>j. PChecked j \<notin> set (pushers q)"
    using that by (cases "pushers q"; cases "hd (pushers q)") (auto simp: waiting_def)
  then show ?thesis using cq_term_waited inv quiet
    by (auto simp: cq_inv_def cq_safe_def workers_ok_def)
next
  case (cq_term_stop i)
  then show ?thesis using inv
    by (auto simp: cq_inv_def cq_safe_def workers_ok_def worker_Stop_def nth_list_update
        cq_acct_def sized_def)
qed (use inv in \<open>auto simp: cq_inv_def cq_safe_def chan_send_Sent_iff chan_recv_Received_ex
      chan_close_def workers_ok_def
      split: if_splits\<close>)

lemma cq_inv_init: "cq_init cap n e q \<Longrightarrow> cq_inv cap n q"
  using cq_acct_init [of cap n e q]
  by (simp add: cq_inv_def cq_safe_def cq_init_eq NewQueue_def make_chan_def workers_ok_def)

lemma cq_inv_step:
  assumes "cq_inv cap n q" and "cq_quiet_step run q q'"
  shows "cq_inv cap n q'"
proof -
  have "cq_rule run q q'" "past_wait (term_pc q') \<longrightarrow> (\<forall>j. PChecked j \<notin> set (pushers q'))"
    using assms(2) by (simp_all add: cq_quiet_step_def cq_step_def)
  then show ?thesis using assms(1) cq_acct_rule cq_safe_rule [of run q q' cap n]
    by (auto simp: cq_inv_def)
qed

interpretation cqq: transition_system "cq_init cap n e" "cq_quiet_step run" "cq_inv cap n"
  for cap n e run
  by unfold_locales (auto intro: cq_inv_init cq_inv_step)

end
