(* ===== verification/ChanQueueLive.thy ===== *)
theory ChanQueueLive
  imports ChanQueueSafe
begin

text \<open>
  Progress of the channel queue: the job channels of the workers as tokens, each of which is in the
  pool, with the dispatcher, or with its busy worker; and a measure of the work left, which every
  step that takes no new job lowers. The work of a pushed job is the number of hand-overs ahead of it.
\<close>

subsection \<open>Worker tokens\<close>

fun wpc_out :: "'j wpc \<Rightarrow> bool" where
  "wpc_out (WRun j) = True"
| "wpc_out WReturn = True"
| "wpc_out _ = False"

definition holders :: "'j wpc list \<Rightarrow> nat multiset" where
  "holders ps = mset (filter (\<lambda>i. wpc_out (ps ! i)) [0..<length ps])"

fun dpc_token :: "'j dpc \<Rightarrow> nat list" where
  "dpc_token (DSend j i) = [i]"
| "dpc_token _ = []"

fun dpc_gone :: "'j dpc \<Rightarrow> bool" where
  "dpc_gone DExit = True"
| "dpc_gone (DStuck j) = True"
| "dpc_gone _ = False"

definition cq_tokens :: "nat \<Rightarrow> ('j, 'e) cqueue \<Rightarrow> bool" where
  "cq_tokens n q \<longleftrightarrow>
     ch_cap (pool_ch (wps q)) = n \<and>
     (\<not> past_wait (term_pc q) \<longrightarrow> \<not> dpc_gone (disp q) \<and>
        mset (dpc_token (disp q)) + (mset (ch_buf (pool_ch (wps q))) + holders (wpcs (wps q))) =
        mset [0..<n])"

lemma count_holders: "count (holders ps) k = (if k < length ps \<and> wpc_out (ps ! k) then 1 else 0)"
  by (simp add: holders_def distinct_count_atmost_1 [THEN iffD1] count_mset_0_iff)

lemma holders_update:
  assumes "i < length ps"
  shows "holders (ps[i := p]) + (if wpc_out (ps ! i) then {#i#} else {#}) =
    holders ps + (if wpc_out p then {#i#} else {#})"
  by (rule multiset_eqI) (use assms in \<open>auto simp: count_holders nth_list_update\<close>)

lemma holders_same:
  "i < length ps \<Longrightarrow> wpc_out p = wpc_out (ps ! i) \<Longrightarrow> holders (ps[i := p]) = holders ps"
  using holders_update [of i ps p] by (auto split: if_splits)

lemma holders_in:
  "i < length ps \<Longrightarrow> wpc_out p \<Longrightarrow> \<not> wpc_out (ps ! i) \<Longrightarrow>
     holders (ps[i := p]) = add_mset i (holders ps)"
  using holders_update [of i ps p] by simp

lemma holders_out:
  "i < length ps \<Longrightarrow> \<not> wpc_out p \<Longrightarrow> wpc_out (ps ! i) \<Longrightarrow>
     add_mset i (holders (ps[i := p])) = holders ps"
  using holders_update [of i ps p] by simp

lemma worker_step_tokens:
  assumes "worker_step run (e, w) (e', w')"
    and "\<forall>i < length (wpcs w). \<not> quits w ! i \<and> \<not> wpc_leaving (wpcs w ! i)"
  shows "mset (ch_buf (pool_ch w')) + holders (wpcs w') = mset (ch_buf (pool_ch w)) + holders (wpcs w)"
  using assms(1)
proof cases
  case (w_return i c)
  then show ?thesis using holders_out [of i "wpcs w" WDone] by (auto simp: chan_send_Sent_iff)
qed (use assms(2) in \<open>auto simp: holders_same\<close>)

lemma worker_step_cap:
  assumes "worker_step run (e, w) (e', w')"
  shows "ch_cap (pool_ch w') = ch_cap (pool_ch w)"
  using assms by cases (auto simp: chan_send_Sent_iff chan_recv_Received_ex)

text \<open>Before the end of the wait no worker is leaving and nothing is closed.\<close>

lemma before_wait:
  assumes "cq_inv cap n q" and "\<not> past_wait (term_pc q)"
  shows "\<not> ch_closed (jobq q)" "\<not> ch_closed (pool_ch (wps q))"
    "\<forall>i < length (wpcs (wps q)). \<not> quits (wps q) ! i \<and> \<not> wpc_leaving (wpcs (wps q) ! i)"
    "i < n \<Longrightarrow> \<not> jobclosed (wps q) ! i"
proof -
  have s: "cq_safe q" "sized n (wps q)" using assms(1) by (simp_all add: cq_inv_def cq_acct_def)
  have st: "\<not> told_to_stop (term_pc q) i" for i using assms(2) by (cases "term_pc q") auto
  show "\<not> ch_closed (jobq q)" "\<not> ch_closed (pool_ch (wps q))"
    using s assms(2) by (auto simp: cq_safe_def)
  show *: "\<forall>i < length (wpcs (wps q)). \<not> quits (wps q) ! i \<and> \<not> wpc_leaving (wpcs (wps q) ! i)"
    using s st by (auto simp: cq_safe_def workers_ok_def)
  show "\<not> jobclosed (wps q) ! i" if "i < n"
    using * s that by (fastforce simp: cq_safe_def workers_ok_def sized_def)
qed

lemma cq_tokens_rule:
  assumes "cq_rule run q q'" and inv: "cq_inv cap n q" and tok: "cq_tokens n q"
  shows "cq_tokens n q'"
  using assms(1)
proof cases
  case (cq_worker e' w')
  then show ?thesis
    using tok worker_step_cap [OF cq_worker(2)] worker_step_tokens [OF cq_worker(2)]
      before_wait(3) [OF inv]
    by (auto simp: cq_tokens_def)
next
  case (cq_disp_send j i)
  then show ?thesis using tok holders_in [of i "wpcs (wps q)" "WRun j"]
    by (auto simp: cq_tokens_def handover_def can_receive_def)
next
  case (cq_disp_end)
  then show ?thesis using tok before_wait(1) [OF inv]
    by (auto simp: cq_tokens_def chan_recv_RecvZero_iff)
next
  case (cq_disp_nil j)
  then show ?thesis using tok before_wait(2) [OF inv]
    by (auto simp: cq_tokens_def chan_recv_RecvZero_iff)
qed (use tok in \<open>auto simp: cq_tokens_def chan_recv_Received_ex chan_close_def worker_Stop_def
      cq_panic_def split: if_splits\<close>)

lemma cq_tokens_init: "cq_init cap n e q \<Longrightarrow> cq_tokens n q"
  by (simp add: cq_init_eq cq_tokens_def NewQueue_def make_chan_def holders_def)

interpretation cqt: transition_system "cq_init cap n e" "cq_quiet_step run"
    "\<lambda>q. cq_inv cap n q \<and> cq_tokens n q"
  for cap n e run
proof (unfold_locales, goal_cases)
  case (1 q)
  then show ?case by (simp add: cq_inv_init cq_tokens_init)
next
  case (2 q q')
  then show ?case
    by (auto intro: cq_inv_step cq_tokens_rule simp: cq_quiet_step_def cq_step_def)
qed

subsection \<open>Work\<close>

fun ppc_work :: "'j ppc \<Rightarrow> nat" where
  "ppc_work (PAdded j) = 7"
| "ppc_work (PChecked j) = 0"

fun dpc_work :: "'j dpc \<Rightarrow> nat" where
  "dpc_work (DGot j) = 5"
| "dpc_work (DSend j i) = 4"
| "dpc_work _ = 0"

fun wpc_work :: "'j wpc \<Rightarrow> nat" where
  "wpc_work (WRun j) = 3"
| "wpc_work WReturn = 2"
| "wpc_work WDone = 1"
| "wpc_work _ = 0"

definition cq_work :: "('j, 'e) cqueue \<Rightarrow> nat" where
  "cq_work q = sum_list (map ppc_work (pushers q)) + 6 * length (ch_buf (jobq q)) +
     dpc_work (disp q) + sum_list (map wpc_work (wpcs (wps q)))"

text \<open>A step that neither begins a \<^verbatim>\<open>Push\<close>, nor counts a job, nor moves \<^verbatim>\<open>Terminate\<close>.\<close>

definition cq_internal_step ::
  "('j \<Rightarrow> 'e \<Rightarrow> 'e option) \<Rightarrow> ('j, 'e) cqueue \<Rightarrow> ('j, 'e) cqueue \<Rightarrow> bool" where
  "cq_internal_step run q q' \<longleftrightarrow>
     cq_quiet_step run q q' \<and> accepted q' = accepted q \<and> term_pc q' = term_pc q \<and>
     length (pushers q') \<le> length (pushers q)"

lemma work_update:
  assumes "i < length ps" and "wpc_work p < wpc_work (ps ! i)"
  shows "sum_list (map wpc_work (ps[i := p])) < sum_list (map wpc_work ps)"
  using sum_list_map_update [OF assms(1), of wpc_work p] assms(2) by linarith

lemma worker_step_work:
  assumes "worker_step run (e, w) (e', w')" and "\<not> panicked w'"
    and "\<forall>i < length (wpcs w). \<not> quits w ! i \<and> \<not> wpc_leaving (wpcs w ! i)"
  shows "sum_list (map wpc_work (wpcs w')) < sum_list (map wpc_work (wpcs w))"
  using assms(1) by cases (use assms(2,3) in \<open>auto intro: work_update\<close>)

lemma handover_work:
  assumes "can_receive w i"
  shows "sum_list (map wpc_work (wpcs (handover w i j))) = sum_list (map wpc_work (wpcs w)) + 3"
  using assms sum_list_map_update [of i "wpcs w" wpc_work "WRun j"]
  by (simp add: can_receive_def handover_def)

lemma internal_step_work:
  assumes st: "cq_internal_step run q q'" and inv: "cq_inv cap n q" "cq_inv cap n q'"
    and before: "\<not> past_wait (term_pc q)"
  shows "cq_work q' < cq_work q"
proof -
  have "cq_rule run q q'" using st
    by (simp add: cq_internal_step_def cq_quiet_step_def cq_step_def)
  moreover have np: "\<not> panicked (wps q')" using inv(2) by (simp add: cq_inv_def cq_safe_def)
  ultimately show ?thesis
  proof cases
    case (cq_worker e' w')
    then show ?thesis using worker_step_work [of run "env q" "wps q" e' w'] np
      before_wait(3) [OF inv(1) before] by (simp add: cq_work_def)
  next
    case (cq_disp_send j i)
    then show ?thesis using handover_work [of "wps q" i j] by (simp add: cq_work_def)
  qed (use st np before before_wait(1,2) [OF inv(1) before] in
      \<open>auto simp: cq_internal_step_def cq_work_def cq_panic_def chan_send_Sent_iff
        chan_recv_Received_ex chan_recv_RecvZero_iff\<close>)
qed

subsection \<open>Progress\<close>

lemma tokens_split:
  assumes "cq_inv cap n q" and "cq_tokens n q" and "\<not> past_wait (term_pc q)"
  shows "i < n \<Longrightarrow> wpc_out (wpcs (wps q) ! i) \<Longrightarrow> length (ch_buf (pool_ch (wps q))) < n"
    and "disp q = DSend j i \<Longrightarrow> i < n \<and> \<not> wpc_out (wpcs (wps q) ! i)"
    and "holders (wpcs (wps q)) = {#} \<Longrightarrow> disp q = DGot j \<Longrightarrow> 0 < n \<Longrightarrow> ch_buf (pool_ch (wps q)) \<noteq> []"
proof -
  have len: "length (wpcs (wps q)) = n"
    using assms(1) by (simp add: cq_inv_def cq_acct_def sized_def)
  have tok: "mset (dpc_token (disp q)) + (mset (ch_buf (pool_ch (wps q))) + holders (wpcs (wps q))) =
    mset [0..<n]" using assms(2,3) by (simp add: cq_tokens_def)
  show "length (ch_buf (pool_ch (wps q))) < n" if "i < n" "wpc_out (wpcs (wps q) ! i)"
  proof -
    have "holders (wpcs (wps q)) \<noteq> {#}" using that len count_holders [of "wpcs (wps q)" i] by auto
    then have "0 < size (holders (wpcs (wps q)))" by (simp add: nonempty_has_size)
    with arg_cong [OF tok, of size] show ?thesis by simp
  qed
  show "i < n \<and> \<not> wpc_out (wpcs (wps q) ! i)" if "disp q = DSend j i"
    using arg_cong [OF tok, of "\<lambda>m. count m i"] that len
      distinct_count_atmost_1 [of "[0..<n]"]
    by (auto simp: count_holders split: if_splits)
  show "ch_buf (pool_ch (wps q)) \<noteq> []"
    if "holders (wpcs (wps q)) = {#}" "disp q = DGot j" "0 < n"
    using arg_cong [OF tok, of size] that by auto
qed

lemma worker_can_step:
  assumes inv: "cq_inv cap n q" "cq_tokens n q" "\<not> past_wait (term_pc q)"
    and i: "i < n" "wpc_busy (wpcs (wps q) ! i) \<noteq> 0" and total: "\<forall>j e. run j e \<noteq> None"
  shows "\<exists>e' w'. worker_step run (env q, wps q) (e', w')"
proof -
  have i': "i < length (wpcs (wps q))" using inv(1) i by (simp add: cq_inv_def cq_acct_def sized_def)
  show ?thesis
  proof (cases "wpcs (wps q) ! i")
    case (WRun j)
    obtain e' where "run j (env q) = Some e'"
      using total [rule_format, of j "env q"] by auto
    then show ?thesis by (intro exI) (rule w_run [OF i' WRun])
  next
    case WReturn
    then have "chan_send (pool_ch (wps q)) i \<noteq> SendBlocks \<and> chan_send (pool_ch (wps q)) i \<noteq> SendPanics"
      using tokens_split(1) [OF inv i(1)] inv(2) before_wait(2) [OF inv(1,3)]
      by (simp add: chan_send_def cq_tokens_def)
    then obtain c where "chan_send (pool_ch (wps q)) i = Sent c"
      by (cases "chan_send (pool_ch (wps q)) i") auto
    then show ?thesis by (intro exI) (rule w_return [OF i' WReturn])
  next
    case WDone
    then show ?thesis by (intro exI) (rule w_done [OF i'])
  qed (use i(2) in auto)
qed

lemma dispatcher_can_step:
  assumes inv: "cq_inv cap n q" "cq_tokens n q" "\<not> past_wait (term_pc q)" and n: "0 < n"
    and idle: "\<forall>i < n. wpc_busy (wpcs (wps q) ! i) = 0" and w: "waiting q \<noteq> {#}"
  shows "\<exists>q'. cq_rule run q q' \<and> accepted q' = accepted q \<and> term_pc q' = term_pc q \<and>
    length (pushers q') \<le> length (pushers q)"
proof (cases "disp q")
  case (DSend j i)
  have i: "i < n" using tokens_split(2) [OF inv DSend] by simp
  have len: "length (wpcs (wps q)) = n" using inv(1) by (simp add: cq_inv_def cq_acct_def sized_def)
  have "wpcs (wps q) ! i = WSelect"
    using idle i len before_wait(3) [OF inv(1,3)] by (cases "wpcs (wps q) ! i") fastforce+
  then have "can_receive (wps q) i"
    using i len before_wait(4) [OF inv(1,3) i] by (simp add: can_receive_def)
  then show ?thesis using cq_disp_send [OF DSend, of run] by force
next
  case (DGot j)
  have out: "wpc_busy p = 0 \<Longrightarrow> \<not> wpc_out p" for p :: "'a wpc" by (cases p) auto
  have "holders (wpcs (wps q)) = {#}"
    by (rule multiset_eqI)
       (use idle inv(1) out in \<open>auto simp: count_holders cq_inv_def cq_acct_def sized_def\<close>)
  then have "ch_buf (pool_ch (wps q)) \<noteq> []" by (rule tokens_split(3) [OF inv _ DGot n])
  then obtain i c where "chan_recv (pool_ch (wps q)) = Received i c"
    by (cases "ch_buf (pool_ch (wps q))") (auto simp: chan_recv_def)
  then show ?thesis using cq_disp_worker [OF DGot, of _ _ run] by force
next
  case DRange
  show ?thesis
  proof (cases "ch_buf (jobq q)")
    case Nil
    then have "concat (map ppc_jobs (pushers q)) \<noteq> []" using w DRange by (auto simp: waiting_def)
    then obtain p where p: "p \<in> set (pushers q)" "ppc_jobs p \<noteq> []" by auto
    from p(2) obtain j where "p = PAdded j" by (cases p) auto
    then obtain xs ys where ps: "pushers q = xs @ PAdded j # ys" using p by (meson split_list)
    have cl: "\<not> ch_closed (jobq q)" by (rule before_wait(1) [OF inv(1,3)])
    show ?thesis
    proof (cases "ch_cap (jobq q) = 0")
      case True
      then show ?thesis using cq_push_meet [OF ps True cl DRange, of run] ps by force
    next
      case False
      then have "chan_send (jobq q) j = Sent (jobq q\<lparr>ch_buf := [j]\<rparr>)"
        using Nil cl by (simp add: chan_send_def)
      then show ?thesis using cq_push_send [OF ps, of _ run] ps by force
    qed
  next
    case (Cons j js)
    then have "chan_recv (jobq q) = Received j (jobq q\<lparr>ch_buf := js\<rparr>)" by (simp add: chan_recv_def)
    then show ?thesis using cq_disp_recv [OF DRange, of _ _ run] by force
  qed
qed (use inv in \<open>auto simp: cq_inv_def cq_safe_def cq_tokens_def\<close>)

lemma cq_progress:
  assumes inv: "cq_inv cap n q" "cq_tokens n q" and n: "0 < n"
    and total: "\<forall>j e. run j e \<noteq> None" and wg: "wg (wps q) \<noteq> 0"
  shows "\<exists>q'. cq_internal_step run q q'"
proof -
  have acct: "cq_acct cap n q" and safe: "cq_safe q" using inv by (simp_all add: cq_inv_def)
  have before: "\<not> past_wait (term_pc q)" using safe wg by (auto simp: cq_safe_def)
  have "\<exists>q'. cq_rule run q q' \<and> accepted q' = accepted q \<and> term_pc q' = term_pc q \<and>
    length (pushers q') \<le> length (pushers q)"
  proof (cases "\<forall>i < n. wpc_busy (wpcs (wps q) ! i) = 0")
    case True
    then have "busy (wps q) = 0" using acct
      by (auto simp: busy_def cq_acct_def sized_def in_set_conv_nth)
    then have "waiting q \<noteq> {#}" using acct wg by (auto simp: cq_acct_def slack_def)
    then show ?thesis using dispatcher_can_step [OF inv before n True] by blast
  next
    case False
    then obtain i where "i < n" "wpc_busy (wpcs (wps q) ! i) \<noteq> 0" by blast
    then obtain e' w' where "worker_step run (env q, wps q) (e', w')"
      using worker_can_step [OF inv before _ _ total] by blast
    then show ?thesis using cq_worker [of run q e' w'] by force
  qed
  then show ?thesis using before safe
    by (auto simp: cq_internal_step_def cq_quiet_step_def cq_step_def cq_safe_def)
qed

end
