(* ===== verification/ChanQueueExec.thy ===== *)
theory ChanQueueExec
  imports ChanQueue
begin

text \<open>
  Schedules of the channel queue: one action per rule of its step relation, an executable function
  that performs an action, and the lemma that the steps are exactly the performed actions, so that
  executing a list of actions gives a run.
\<close>

datatype wact = ARun nat | AReturn nat | ADone nat | AQuit nat | AUnpool nat | AClose nat

datatype 'j act =
    AWorker wact
  | APushCheck 'j | APushAdd nat | APushSend nat | APushMeet nat
  | ADispRecv | ADispWorker | ADispSend
  | ATermBegin | ATermWaited | ATermCloseJobs | ATermStop | ATermClosePool

fun wexec :: "('j \<Rightarrow> 'e \<Rightarrow> 'e option) \<Rightarrow> wact \<Rightarrow> 'e \<times> 'j wpool \<Rightarrow> ('e \<times> 'j wpool) option" where
  "wexec run (ARun i) (e, w) =
     (if i < length (wpcs w) then
        (case wpcs w ! i of
           WRun j \<Rightarrow> (case run j e of
             Some e' \<Rightarrow> Some (e', w\<lparr>wpcs := (wpcs w)[i := WReturn], executed := executed w @ [j]\<rparr>)
           | None \<Rightarrow> None)
         | _ \<Rightarrow> None)
      else None)"
| "wexec run (AReturn i) (e, w) =
     (if i < length (wpcs w) then
        (case wpcs w ! i of
           WReturn \<Rightarrow> (case chan_send (pool_ch w) i of
             Sent c \<Rightarrow> Some (e, w\<lparr>wpcs := (wpcs w)[i := WDone], pool_ch := c\<rparr>)
           | SendPanics \<Rightarrow> Some (e, w\<lparr>panicked := True\<rparr>)
           | SendBlocks \<Rightarrow> None)
         | _ \<Rightarrow> None)
      else None)"
| "wexec run (ADone i) (e, w) =
     (if i < length (wpcs w) then
        (case wpcs w ! i of
           WDone \<Rightarrow> Some (e, w\<lparr>wpcs := (wpcs w)[i := WSelect], wg := wg w - 1,
                              panicked := (panicked w \<or> wg w < 1)\<rparr>)
         | _ \<Rightarrow> None)
      else None)"
| "wexec run (AQuit i) (e, w) =
     (if i < length (wpcs w) then
        (case wpcs w ! i of
           WSelect \<Rightarrow> if quits w ! i then Some (e, w\<lparr>wpcs := (wpcs w)[i := WQuit]\<rparr>) else None
         | _ \<Rightarrow> None)
      else None)"
| "wexec run (AUnpool i) (e, w) =
     (if i < length (wpcs w) then
        (case wpcs w ! i of
           WQuit \<Rightarrow> (case chan_recv (pool_ch w) of
             Received k c \<Rightarrow> Some (e, w\<lparr>wpcs := (wpcs w)[i := WClose], pool_ch := c\<rparr>)
           | RecvZero \<Rightarrow> Some (e, w\<lparr>wpcs := (wpcs w)[i := WClose]\<rparr>)
           | RecvBlocks \<Rightarrow> None)
         | _ \<Rightarrow> None)
      else None)"
| "wexec run (AClose i) (e, w) =
     (if i < length (wpcs w) then
        (case wpcs w ! i of
           WClose \<Rightarrow> Some (e, w\<lparr>wpcs := (wpcs w)[i := WExit], jobclosed := (jobclosed w)[i := True],
                               panicked := (panicked w \<or> jobclosed w ! i)\<rparr>)
         | _ \<Rightarrow> None)
      else None)"

lemma wexec_sound:
  assumes "wexec run a (e, w) = Some (e', w')"
  shows "worker_step run (e, w) (e', w')"
  using assms
  by (cases a) (auto split: if_splits wpc.splits option.splits send_result.splits recv_result.splits
      intro: worker_step.intros)

lemma wexec_complete:
  assumes "worker_step run s s'"
  shows "\<exists>a. wexec run a s = Some s'"
  using assms
proof cases
  case (w_run i w j e e')
  then show ?thesis by (intro exI [of _ "ARun i"]) simp
next
  case (w_return i w c e)
  then show ?thesis by (intro exI [of _ "AReturn i"]) simp
next
  case (w_return_panic i w e)
  then show ?thesis by (intro exI [of _ "AReturn i"]) simp
next
  case (w_done i w e)
  then show ?thesis by (intro exI [of _ "ADone i"]) simp
next
  case (w_quit i w e)
  then show ?thesis by (intro exI [of _ "AQuit i"]) simp
next
  case (w_unpool i w k c e)
  then show ?thesis by (intro exI [of _ "AUnpool i"]) simp
next
  case (w_unpool_closed i w e)
  then show ?thesis by (intro exI [of _ "AUnpool i"]) simp
next
  case (w_close i w e)
  then show ?thesis by (intro exI [of _ "AClose i"]) simp
qed

text \<open>The actions of the queue. The pushing goroutine is known by its position.\<close>

fun cq_exec :: "('j \<Rightarrow> 'e \<Rightarrow> 'e option) \<Rightarrow> 'j act \<Rightarrow> ('j, 'e) cqueue \<Rightarrow> ('j, 'e) cqueue option" where
  "cq_exec run (AWorker a) q =
     map_option (\<lambda>(e, w). q\<lparr>env := e, wps := w\<rparr>) (wexec run a (env q, wps q))"
| "cq_exec run (APushCheck j) q =
     (if running q = 1 then Some (q\<lparr>pushers := pushers q @ [PChecked j]\<rparr>) else None)"
| "cq_exec run (APushAdd k) q =
     (case drop k (pushers q) of
        PChecked j # ys \<Rightarrow>
          Some (q\<lparr>pushers := take k (pushers q) @ PAdded j # ys,
                  wps := (wps q)\<lparr>wg := wg (wps q) + 1\<rparr>, accepted := accepted q @ [j]\<rparr>)
      | _ \<Rightarrow> None)"
| "cq_exec run (APushSend k) q =
     (case drop k (pushers q) of
        PAdded j # ys \<Rightarrow>
          (case chan_send (jobq q) j of
             Sent c \<Rightarrow> Some (q\<lparr>pushers := take k (pushers q) @ ys, jobq := c\<rparr>)
           | SendPanics \<Rightarrow> Some (cq_panic q)
           | SendBlocks \<Rightarrow> None)
      | _ \<Rightarrow> None)"
| "cq_exec run (APushMeet k) q =
     (case drop k (pushers q) of
        PAdded j # ys \<Rightarrow>
          (if ch_cap (jobq q) = 0 \<and> \<not> ch_closed (jobq q) then
             (case disp q of
                DRange \<Rightarrow> Some (q\<lparr>pushers := take k (pushers q) @ ys, disp := DGot j\<rparr>)
              | _ \<Rightarrow> None)
           else None)
      | _ \<Rightarrow> None)"
| "cq_exec run ADispRecv q =
     (case disp q of
        DRange \<Rightarrow>
          (case chan_recv (jobq q) of
             Received j c \<Rightarrow> Some (q\<lparr>disp := DGot j, jobq := c\<rparr>)
           | RecvZero \<Rightarrow> Some (q\<lparr>disp := DExit\<rparr>)
           | RecvBlocks \<Rightarrow> None)
      | _ \<Rightarrow> None)"
| "cq_exec run ADispWorker q =
     (case disp q of
        DGot j \<Rightarrow>
          (case chan_recv (pool_ch (wps q)) of
             Received i c \<Rightarrow> Some (q\<lparr>disp := DSend j i, wps := (wps q)\<lparr>pool_ch := c\<rparr>\<rparr>)
           | RecvZero \<Rightarrow> Some (q\<lparr>disp := DStuck j\<rparr>)
           | RecvBlocks \<Rightarrow> None)
      | _ \<Rightarrow> None)"
| "cq_exec run ADispSend q =
     (case disp q of
        DSend j i \<Rightarrow>
          (if i < length (jobclosed (wps q)) \<and> jobclosed (wps q) ! i then Some (cq_panic q)
           else if can_receive (wps q) i
           then Some (q\<lparr>disp := DRange, wps := handover (wps q) i j\<rparr>)
           else None)
      | _ \<Rightarrow> None)"
| "cq_exec run ATermBegin q =
     (case term_pc q of
        TNone \<Rightarrow> if running q = 1 then Some (q\<lparr>running := 0, term_pc := TWait\<rparr>) else None
      | _ \<Rightarrow> None)"
| "cq_exec run ATermWaited q =
     (case term_pc q of
        TWait \<Rightarrow> if wg (wps q) = 0 then Some (q\<lparr>term_pc := TCloseJobs\<rparr>) else None
      | _ \<Rightarrow> None)"
| "cq_exec run ATermCloseJobs q =
     (case term_pc q of
        TCloseJobs \<Rightarrow>
          (case chan_close (jobq q) of
             Ok c \<Rightarrow> Some (q\<lparr>jobq := c, term_pc := TStop 0\<rparr>)
           | _ \<Rightarrow> None)
      | _ \<Rightarrow> None)"
| "cq_exec run ATermStop q =
     (case term_pc q of
        TStop i \<Rightarrow>
          (if i < length (wpcs (wps q))
           then Some (q\<lparr>wps := worker_Stop (wps q) i, term_pc := TStop (Suc i)\<rparr>)
           else if i = length (wpcs (wps q)) then Some (q\<lparr>term_pc := TClosePool\<rparr>)
           else None)
      | _ \<Rightarrow> None)"
| "cq_exec run ATermClosePool q =
     (case term_pc q of
        TClosePool \<Rightarrow>
          (case chan_close (pool_ch (wps q)) of
             Ok c \<Rightarrow> Some (q\<lparr>wps := (wps q)\<lparr>pool_ch := c\<rparr>, term_pc := TDone\<rparr>)
           | _ \<Rightarrow> None)
      | _ \<Rightarrow> None)"

lemma drop_split: "drop k xs = y # ys \<Longrightarrow> xs = take k xs @ y # ys"
  by (metis append_take_drop_id)

lemma cq_exec_push_sound:
  assumes "cq_exec run (APushAdd k) q = Some q' \<or> cq_exec run (APushSend k) q = Some q' \<or>
    cq_exec run (APushMeet k) q = Some q'"
  shows "cq_rule run q q'"
  using assms
  by (auto split: list.splits ppc.splits send_result.splits if_splits dpc.splits dest!: drop_split
      intro: cq_rule.intros)

lemma cq_exec_sound:
  assumes "cq_exec run a q = Some q'"
  shows "cq_rule run q q'"
proof (cases a)
  case (AWorker b)
  then show ?thesis using assms by (auto intro: cq_worker wexec_sound)
next
  case (APushAdd k)
  then show ?thesis using assms cq_exec_push_sound by blast
next
  case (APushSend k)
  then show ?thesis using assms cq_exec_push_sound by blast
next
  case (APushMeet k)
  then show ?thesis using assms cq_exec_push_sound by blast
qed (use assms in \<open>auto split: if_splits dpc.splits recv_result.splits tpc.splits outcome.splits
      intro: cq_rule.intros\<close>)

lemma cq_exec_complete:
  assumes "cq_rule run q q'"
  shows "\<exists>a. cq_exec run a q = Some q'"
  using assms
proof cases
  case (cq_worker e' w')
  then obtain a where "wexec run a (env q, wps q) = Some (e', w')" using wexec_complete by blast
  then show ?thesis using cq_worker by (intro exI [of _ "AWorker a"]) simp
next
  case (cq_push_check j)
  then show ?thesis by (intro exI [of _ "APushCheck j"]) simp
next
  case (cq_push_add xs j ys)
  then show ?thesis by (intro exI [of _ "APushAdd (length xs)"]) simp
next
  case (cq_push_send xs j ys c)
  then show ?thesis by (intro exI [of _ "APushSend (length xs)"]) simp
next
  case (cq_push_meet xs j ys)
  then show ?thesis by (intro exI [of _ "APushMeet (length xs)"]) simp
next
  case (cq_push_panic xs j ys)
  then show ?thesis by (intro exI [of _ "APushSend (length xs)"]) simp
next
  case (cq_disp_recv j c)
  then show ?thesis by (intro exI [of _ ADispRecv]) simp
next
  case cq_disp_end
  then show ?thesis by (intro exI [of _ ADispRecv]) simp
next
  case (cq_disp_worker j i c)
  then show ?thesis by (intro exI [of _ ADispWorker]) simp
next
  case (cq_disp_nil j)
  then show ?thesis by (intro exI [of _ ADispWorker]) simp
next
  case (cq_disp_send j i)
  then show ?thesis by (intro exI [of _ ADispSend]) (simp add: can_receive_def)
next
  case (cq_disp_panic j i)
  then show ?thesis by (intro exI [of _ ADispSend]) simp
next
  case cq_term_begin
  then show ?thesis by (intro exI [of _ ATermBegin]) simp
next
  case cq_term_waited
  then show ?thesis by (intro exI [of _ ATermWaited]) simp
next
  case (cq_term_close_jobs c)
  then show ?thesis by (intro exI [of _ ATermCloseJobs]) simp
next
  case (cq_term_stop i)
  then show ?thesis by (intro exI [of _ ATermStop]) simp
next
  case (cq_term_stopped i)
  then show ?thesis by (intro exI [of _ ATermStop]) simp
next
  case (cq_term_close_pool c)
  then show ?thesis by (intro exI [of _ ATermClosePool]) simp
qed

lemma cq_rule_exec: "cq_rule run q q' \<longleftrightarrow> (\<exists>a. cq_exec run a q = Some q')"
  using cq_exec_sound cq_exec_complete by blast

text \<open>A schedule whose every state meets a guard; it stops at a panic.\<close>

fun cq_exec_all ::
  "('j \<Rightarrow> 'e \<Rightarrow> 'e option) \<Rightarrow> (('j, 'e) cqueue \<Rightarrow> bool) \<Rightarrow> 'j act list \<Rightarrow> ('j, 'e) cqueue \<Rightarrow>
     ('j, 'e) cqueue option" where
  "cq_exec_all run ok [] q = Some q"
| "cq_exec_all run ok (a # as) q =
     (if panicked (wps q) then None
      else (case cq_exec run a q of
              Some q \<Rightarrow> if ok q then cq_exec_all run ok as q else None
            | None \<Rightarrow> None))"

lemma cq_exec_all_reach:
  assumes "reach I (\<lambda>p q. cq_step run p q \<and> ok q) q" and "cq_exec_all run ok as q = Some q'"
  shows "reach I (\<lambda>p q. cq_step run p q \<and> ok q) q'"
  using assms
proof (induction "as" arbitrary: q)
  case Nil
  then show ?case by simp
next
  case (Cons a "as")
  from Cons.prems(2) obtain p where p: "\<not> panicked (wps q)" "cq_exec run a q = Some p" "ok p"
    "cq_exec_all run ok as p = Some q'"
    by (auto split: if_splits option.splits)
  then have "cq_step run q p" by (simp add: cq_step_def cq_exec_sound)
  with p have "reach I (\<lambda>p q. cq_step run p q \<and> ok q) p" by (intro reach_step [OF Cons.prems(1)]) simp
  then show ?case using Cons.IH p(4) by blast
qed

definition cq_start :: "nat \<Rightarrow> nat \<Rightarrow> 'e \<Rightarrow> ('j, 'e) cqueue" where
  "cq_start cap n e =
     (NewQueue cap n e)\<lparr>running := 1, disp := DRange,
       wps := \<lparr>pool_ch = \<lparr>ch_buf = [0..<n], ch_cap = n, ch_closed = False\<rparr>,
               wpcs = replicate n WSelect, quits = replicate n False,
               jobclosed = replicate n False, wg = 0, executed = [], panicked = False\<rparr>\<rparr>"

lemma cq_start_init: "cq_init cap n e (cq_start cap n e)"
  by (simp add: cq_start_def cq_init_eq)

lemma cq_schedule_guarded:
  "cq_exec_all run ok as (cq_start cap n e) = Some q \<Longrightarrow>
     reach (cq_init cap n e) (\<lambda>p q. cq_step run p q \<and> ok q) q"
  by (rule cq_exec_all_reach [where q = "cq_start cap n e"])
     (simp_all add: reach_init cq_start_init)

lemma cq_schedule_reach:
  assumes "cq_exec_all run (\<lambda>_. True) as (cq_start cap n e) = Some q"
  shows "reach (cq_init cap n e) (cq_step run) q"
  using cq_schedule_guarded [OF assms] by simp

end
