(* ===== verification/ChanQueueProps.thy ===== *)
theory ChanQueueProps
  imports ChanQueueLive ChanQueueExec
begin

text \<open>
  What the channel queue guarantees to the ingester, and what it does not: jobs run exactly once,
  the buffer is bounded, race-free runs neither panic nor get stuck; a \<^verbatim>\<open>Push\<close> that overlaps
  \<^verbatim>\<open>Terminate\<close> panics, and the four workers of the ingester may run jobs out of order.
\<close>

subsection \<open>Lemmas\<close>

text \<open>The restriction to race-free runs, as a check on the states of a schedule.\<close>

fun ppc_added :: "'j ppc \<Rightarrow> bool" where
  "ppc_added (PAdded j) = True"
| "ppc_added (PChecked j) = False"

definition cq_quiet :: "('j, 'e) cqueue \<Rightarrow> bool" where
  "cq_quiet q \<longleftrightarrow> \<not> past_wait (term_pc q) \<or> list_all ppc_added (pushers q)"

lemma cq_quiet_step_guard: "cq_quiet_step run = (\<lambda>p q. cq_step run p q \<and> cq_quiet q)"
proof -
  have "list_all ppc_added ps \<longleftrightarrow> (\<forall>j. PChecked j \<notin> set ps)" for ps :: "'a ppc list"
  proof (induction ps)
    case Nil
    then show ?case by simp
  next
    case (Cons p ps)
    then show ?case by (cases p) auto
  qed
  then show ?thesis by (auto simp: cq_quiet_step_def cq_quiet_def fun_eq_iff)
qed

lemma cq_schedule_quiet:
  assumes "cq_exec_all run cq_quiet as (cq_start cap n e) = Some q"
  shows "reach (cq_init cap n e) (cq_quiet_step run) q"
  using cq_schedule_guarded [OF assms] by (simp add: cq_quiet_step_guard)

text \<open>What a finished \<^verbatim>\<open>Terminate\<close> leaves behind.\<close>

definition cq_after :: "nat \<Rightarrow> ('j, 'e) cqueue \<Rightarrow> bool" where
  "cq_after n q \<longleftrightarrow>
     length (wpcs (wps q)) = n \<and> (term_pc q \<noteq> TNone \<longrightarrow> running q = 0) \<and>
     (term_pc q = TDone \<longrightarrow> ch_closed (pool_ch (wps q)))"

lemma worker_step_closed:
  assumes "worker_step run (e, w) (e', w')"
  shows "ch_closed (pool_ch w') = ch_closed (pool_ch w) \<and> length (wpcs w') = length (wpcs w)"
  using assms by cases (auto simp: chan_send_Sent_iff chan_recv_Received_ex)

lemma cq_after_step:
  assumes "cq_after n q" and "cq_step run q q'"
  shows "cq_after n q'"
proof -
  have "cq_rule run q q'" using assms(2) by (simp add: cq_step_def)
  then show ?thesis
  proof cases
    case (cq_worker e' w')
    then show ?thesis using assms(1) worker_step_closed [OF cq_worker(2)] by (auto simp: cq_after_def)
  qed (use assms(1) in \<open>auto simp: cq_after_def chan_recv_Received_ex chan_close_def handover_def
      worker_Stop_def cq_panic_def split: if_splits\<close>)
qed

interpretation cqa: transition_system "cq_init cap n e" "cq_step run" "cq_after n"
  for cap n e run
proof (unfold_locales, goal_cases)
  case (1 q)
  then show ?case by (simp add: cq_init_eq cq_after_def NewQueue_def)
next
  case (2 q q')
  then show ?case by (auto intro: cq_after_step)
qed

lemma upt_Cons: "0 < n \<Longrightarrow> [0..<n] = 0 # [1..<n]"
  by (simp add: upt_conv_Cons)

lemma cq_Run_closed_pool:
  "running q = 0 \<Longrightarrow> ch_closed (pool_ch (wps q)) \<Longrightarrow> 0 < length (wpcs (wps q)) \<Longrightarrow>
     cq_Run q = Some (Panic ''send on closed channel'')"
  by (simp add: cq_Run_def upt_Cons worker_Start_def newWorker_def chan_send_def)

lemma cq_drains_from:
  assumes "reach (cq_init cap n e) (cq_quiet_step run) q" and n: "0 < n"
    and total: "\<forall>j e. run j e \<noteq> None"
  shows "\<exists>q'. (cq_internal_step run)\<^sup>*\<^sup>* q q' \<and> wg (wps q') = 0"
  using assms(1)
proof (induction "cq_work q" arbitrary: q rule: less_induct)
  case less
  have inv: "cq_inv cap n q" "cq_tokens n q" using cqt.reach_invar [OF less(2)] by simp_all
  show ?case
  proof (cases "wg (wps q) = 0")
    case True
    then show ?thesis by blast
  next
    case False
    then have "\<not> past_wait (term_pc q)" using inv by (auto simp: cq_inv_def cq_safe_def)
    moreover obtain p where p: "cq_internal_step run q p"
      using cq_progress [OF inv n total False] by blast
    moreover from p have q: "cq_quiet_step run q p" by (simp add: cq_internal_step_def)
    ultimately have "cq_work p < cq_work q"
      using internal_step_work inv(1) cq_inv_step by blast
    moreover have "reach (cq_init cap n e) (cq_quiet_step run) p" using reach_step less(2) q .
    ultimately obtain q' where "(cq_internal_step run)\<^sup>*\<^sup>* p q'" "wg (wps q') = 0"
      using less(1) by blast
    then show ?thesis using p converse_rtranclp_into_rtranclp [of "cq_internal_step run" q p q'] by blast
  qed
qed

lemma internal_steps_accepted:
  "(cq_internal_step run)\<^sup>*\<^sup>* q q' \<Longrightarrow> accepted q' = accepted q"
  by (induction rule: rtranclp_induct) (auto simp: cq_internal_step_def)

subsection \<open>Schedules\<close>

text \<open>A job that always completes and appends itself to the environment, as the ingester's do.\<close>

definition note_job :: "'j \<Rightarrow> 'j list \<Rightarrow> 'j list option" where
  "note_job j e = Some (e @ [j])"

definition two_jobs :: "'j \<Rightarrow> 'j \<Rightarrow> 'j act list" where
  "two_jobs a b =
     [APushCheck a, APushCheck b, APushAdd 0, APushAdd 1, APushSend 0, APushSend 0,
      ADispRecv, ADispWorker, ADispSend, ADispRecv, ADispWorker, ADispSend,
      AWorker (ARun 1), AWorker (ARun 0), AWorker (AReturn 1), AWorker (ADone 1),
      AWorker (AReturn 0), AWorker (ADone 0)]"

definition shut_down :: "'j act list" where
  "shut_down = [ATermBegin, ATermWaited, ATermCloseJobs, ATermStop, ATermStop, ATermStop, ATermClosePool]"

lemmas schedule_simps = two_jobs_def shut_down_def note_job_def cq_start_def NewQueue_def
  make_chan_def chan_send_def chan_recv_def chan_close_def can_receive_def handover_def
  worker_Stop_def cq_panic_def cq_quiet_def eval_nat_numeral

lemma two_jobs_run:
  assumes "run b e = Some e1" and "run a e1 = Some e2"
  shows "\<exists>q. cq_exec_all run (\<lambda>_. True) (two_jobs a b) (cq_start 1000 4 e) = Some q \<and>
    accepted q = [a, b] \<and> executed (wps q) = [b, a] \<and> env q = e2 \<and> wg (wps q) = 0"
  using assms by (simp add: schedule_simps upt_rec)

lemma two_jobs_shut_down:
  "\<exists>q. cq_exec_all note_job cq_quiet (two_jobs 1 2 @ shut_down) (cq_start 2 2 []) = Some q \<and>
     accepted q = [1::nat, 2] \<and> term_pc q = TDone"
  by (simp add: schedule_simps upt_rec)

lemma push_race_run:
  "\<exists>q. cq_exec_all run (\<lambda>_. True)
     [APushCheck j, ATermBegin, ATermWaited, ATermCloseJobs, APushAdd 0, APushSend 0]
     (cq_start cap n e) = Some q \<and>
     panicked (wps q) \<and> accepted q = [j] \<and> executed (wps q) = []"
  by (simp add: cq_start_def NewQueue_def make_chan_def chan_close_def chan_send_def cq_panic_def)

subsection \<open>Properties\<close>

text \<open>
  Every job the channel queue accepted runs at most once, whatever the interleaving of pushes,
  dispatcher, workers and \<^verbatim>\<open>Terminate\<close>; and when the wait group is at zero, as \<^verbatim>\<open>Terminate\<close> waits for
  before it closes anything, every accepted job has run exactly once.
\<close>

theorem chan_queue_exactly_once:
  assumes "reach (cq_init cap n e) (cq_step run) q"
  shows "mset (executed (wps q)) \<subseteq># mset (accepted q) \<and>
    (wg (wps q) = 0 \<longrightarrow> mset (executed (wps q)) = mset (accepted q))"
  using cq.at_most_once [OF assms] cq.drained [OF assms] by simp

theorem chan_queue_exactly_once_witness:
  "\<exists>q. reach (cq_init 1000 4 []) (cq_step note_job) q \<and> accepted q = [1::nat, 2] \<and>
     mset (executed (wps q)) = {#1, 2#}"
proof -
  obtain q where q: "cq_exec_all note_job (\<lambda>_. True) (two_jobs 1 2) (cq_start 1000 4 []) = Some q"
    "accepted q = [1::nat, 2]" "wg (wps q) = 0"
    using two_jobs_run [of note_job 2 "[]" "[2::nat]" 1 "[2, 1]"] by (auto simp: note_job_def)
  from cq_schedule_reach [OF q(1)] show ?thesis
    using chan_queue_exactly_once [OF cq_schedule_reach [OF q(1)]] q by auto
qed

text \<open>
  The wait group is never negative, so \<^verbatim>\<open>wg.Done\<close> never panics for it; and \<^verbatim>\<open>GetJobCount\<close>, the depth
  the metrics report, never exceeds the capacity given to \<^verbatim>\<open>NewQueue\<close> nor the wait group's count.
\<close>

theorem chan_queue_bounded:
  assumes "reach (cq_init cap n e) (cq_step run) q"
  shows "0 \<le> wg (wps q) \<and> GetJobCount q \<le> cap \<and> int (GetJobCount q) \<le> wg (wps q)"
proof -
  have inv: "cq_acct cap n q" by (rule cq.reach_invar [OF assms])
  have "GetJobCount q \<le> size (cq_in_flight q)"
    by (simp add: GetJobCount_def cq_in_flight_def waiting_def)
  then show ?thesis
    using cq.count_nonneg [OF assms] cq_in_flight_le [OF inv] inv
    by (auto simp: GetJobCount_def cq_acct_def chan_ok_def)
qed

theorem chan_queue_bounded_witness:
  "\<exists>q. reach (cq_init 1 1 []) (cq_step note_job) q \<and> accepted q = [7::nat] \<and>
     GetJobCount q = 1 \<and> 1 \<le> wg (wps q)"
proof -
  obtain q where q: "cq_exec_all note_job (\<lambda>_. True) [APushCheck (7::nat), APushAdd 0, APushSend 0]
      (cq_start 1 1 []) = Some q" "GetJobCount q = 1" "accepted q = [7]"
    by (simp add: schedule_simps GetJobCount_def)
  from cq_schedule_reach [OF q(1)] show ?thesis
    using chan_queue_bounded [OF cq_schedule_reach [OF q(1)]] q by auto
qed

text \<open>
  C13: Orderly shutdown is safe: in a run in which no \<^verbatim>\<open>Push\<close> is between its running check and its
  \<^verbatim>\<open>wg.Add\<close> once \<^verbatim>\<open>Terminate\<close> is past its wait, nothing ever panics, no channel is closed twice or sent
  on after its close, and from then on every accepted job has run exactly once.
\<close>

theorem chan_queue_no_panic:
  assumes "reach (cq_init cap n e) (cq_quiet_step run) q"
  shows "\<not> panicked (wps q) \<and>
    (past_wait (term_pc q) \<longrightarrow> pushers q = [] \<and> mset (executed (wps q)) = mset (accepted q))"
proof -
  have inv: "cq_inv cap n q" by (rule cqq.reach_invar [OF assms])
  moreover have "mset (executed (wps q)) = mset (accepted q)" if "wg (wps q) = 0"
    using cq.conserve [of cap n q] cq.covered [of cap n q] inv that by (simp add: cq_inv_def)
  ultimately show ?thesis by (auto simp: cq_inv_def cq_safe_def)
qed

theorem chan_queue_no_panic_witness:
  "\<exists>q. reach (cq_init 2 2 []) (cq_quiet_step note_job) q \<and> term_pc q = TDone \<and>
     \<not> panicked (wps q) \<and> mset (executed (wps q)) = {#1::nat, 2#}"
proof -
  obtain q where q: "cq_exec_all note_job cq_quiet (two_jobs 1 2 @ shut_down) (cq_start 2 2 []) = Some q"
    "accepted q = [1::nat, 2]" "term_pc q = TDone"
    using two_jobs_shut_down by blast
  from cq_schedule_quiet [OF q(1)] show ?thesis
    using chan_queue_no_panic [OF cq_schedule_quiet [OF q(1)]] q by auto
qed

text \<open>
  C14: The queue does not get stuck: with at least one worker and jobs that complete, whenever the wait
  group is above zero some goroutine can step without a new \<^verbatim>\<open>Push\<close>; every such step lowers a measure
  of the work left; and so the queue can always drain, after which every accepted job has run.
\<close>

theorem chan_queue_progress:
  assumes "reach (cq_init cap n e) (cq_quiet_step run) q" and "0 < n"
    and "\<forall>j e. run j e \<noteq> None"
  shows "(wg (wps q) \<noteq> 0 \<longrightarrow> (\<exists>q'. cq_internal_step run q q')) \<and>
    (\<forall>q'. wg (wps q) \<noteq> 0 \<longrightarrow> cq_internal_step run q q' \<longrightarrow> cq_work q' < cq_work q) \<and>
    (\<exists>q'. (cq_internal_step run)\<^sup>*\<^sup>* q q' \<and> wg (wps q') = 0 \<and> accepted q' = accepted q)"
proof (intro conjI allI impI)
  have inv: "cq_inv cap n q" "cq_tokens n q" using cqt.reach_invar [OF assms(1)] by simp_all
  show "\<exists>q'. cq_internal_step run q q'" if "wg (wps q) \<noteq> 0"
    by (rule cq_progress [OF inv assms(2,3) that])
  show "cq_work q' < cq_work q" if "wg (wps q) \<noteq> 0" and st: "cq_internal_step run q q'" for q'
  proof -
    have "cq_quiet_step run q q'" using st by (simp add: cq_internal_step_def)
    then have "cq_inv cap n q'" by (rule cq_inv_step [OF inv(1)])
    moreover have "\<not> past_wait (term_pc q)" using inv that by (auto simp: cq_inv_def cq_safe_def)
    ultimately show ?thesis using internal_step_work [OF st inv(1)] by blast
  qed
  show "\<exists>q'. (cq_internal_step run)\<^sup>*\<^sup>* q q' \<and> wg (wps q') = 0 \<and> accepted q' = accepted q"
    using cq_drains_from [OF assms] internal_steps_accepted by blast
qed

theorem chan_queue_progress_witness:
  "\<exists>q. reach (cq_init 1 1 []) (cq_quiet_step note_job) q \<and> wg (wps q) = 1 \<and>
     (\<exists>q'. (cq_internal_step note_job)\<^sup>*\<^sup>* q q' \<and> wg (wps q') = 0 \<and> accepted q' = [7::nat])"
proof -
  obtain q where q: "cq_exec_all note_job cq_quiet [APushCheck (7::nat), APushAdd 0]
      (cq_start 1 1 []) = Some q" "wg (wps q) = 1" "accepted q = [7]"
    by (simp add: schedule_simps)
  have "\<exists>q'. (cq_internal_step note_job)\<^sup>*\<^sup>* q q' \<and> wg (wps q') = 0 \<and> accepted q' = accepted q"
    using chan_queue_progress [OF cq_schedule_quiet [OF q(1)]] by (simp add: note_job_def)
  then show ?thesis using q cq_schedule_quiet [OF q(1)] by auto
qed

text \<open>
  C33: A \<^verbatim>\<open>Push\<close> that has passed its running check when \<^verbatim>\<open>Terminate\<close> runs ends the process: \<^verbatim>\<open>Terminate\<close>
  finds the wait group at zero and closes the job channel, and the \<^verbatim>\<open>Push\<close> then sends on a closed
  channel. The job was accepted and never runs. This holds for every capacity and worker count.
\<close>

theorem chan_queue_push_race:
  "\<exists>q. reach (cq_init cap n e) (cq_step run) q \<and> panicked (wps q) \<and> accepted q = [j] \<and>
     executed (wps q) = []"
proof -
  obtain q where "cq_exec_all run (\<lambda>_. True)
      [APushCheck j, ATermBegin, ATermWaited, ATermCloseJobs, APushAdd 0, APushSend 0]
      (cq_start cap n e) = Some q" "panicked (wps q)" "accepted q = [j]" "executed (wps q) = []"
    using push_race_run by metis
  then show ?thesis using cq_schedule_reach by metis
qed

text \<open>
  C34: The ingester's queue (\<^verbatim>\<open>NewQueue(1000, 4)\<close>) does not keep the order of jobs: for any two jobs
  accepted in the order \<open>a\<close>, \<open>b\<close> there is a run in which \<open>b\<close> takes effect first, so two records of
  one object may reach the batch worker with the older one last.
\<close>

theorem chan_queue_reorders:
  assumes "run b e = Some e1" and "run a e1 = Some e2"
  shows "\<exists>q. reach (cq_init 1000 4 e) (cq_step run) q \<and> accepted q = [a, b] \<and>
    executed (wps q) = [b, a] \<and> env q = e2 \<and> wg (wps q) = 0"
proof -
  obtain q where "cq_exec_all run (\<lambda>_. True) (two_jobs a b) (cq_start 1000 4 e) = Some q"
    "accepted q = [a, b]" "executed (wps q) = [b, a]" "env q = e2" "wg (wps q) = 0"
    using two_jobs_run [of run b e e1 a e2] assms by metis
  then show ?thesis using cq_schedule_reach by metis
qed

theorem chan_queue_reorders_witness:
  "\<exists>q. reach (cq_init 1000 4 []) (cq_step note_job) q \<and> accepted q = [1::nat, 2] \<and> env q = [2, 1]"
  using chan_queue_reorders [of note_job 2 "[]" "[2]" 1 "[2, 1]"] by (auto simp: note_job_def)

text \<open>
  The queue cannot be run again: once \<^verbatim>\<open>Terminate\<close> has returned, \<^verbatim>\<open>Run\<close> panics, since it offers the
  new workers on the closed pool.
\<close>

theorem chan_queue_rerun_panics:
  assumes "reach (cq_init cap n e) (cq_step run) q" and "term_pc q = TDone" and "0 < n"
  shows "cq_Run q = Some (Panic ''send on closed channel'')"
proof (rule cq_Run_closed_pool)
  show "running q = 0" "ch_closed (pool_ch (wps q))" "0 < length (wpcs (wps q))"
    using cqa.reach_invar [OF assms(1)] assms(2,3) by (simp_all add: cq_after_def)
qed

theorem chan_queue_rerun_panics_witness:
  "\<exists>q. reach (cq_init 2 2 []) (cq_step note_job) q \<and> accepted q = [] \<and>
     (cq_Run q :: (nat, nat list) cqueue outcome option) = Some (Panic ''send on closed channel'')"
proof -
  obtain q :: "(nat, nat list) cqueue"
    where q: "cq_exec_all note_job (\<lambda>_. True) shut_down (cq_start 2 2 []) = Some q"
      "term_pc q = TDone" "accepted q = []"
    by (simp add: schedule_simps)
  then show ?thesis using chan_queue_rerun_panics [OF cq_schedule_reach [OF q(1)]]
      cq_schedule_reach [OF q(1)] by auto
qed

end
