(* ===== verification/KubeTypes.thy ===== *)
theory KubeTypes
  imports GoPrelude "HOL-Library.Char_ord" "HOL-Library.List_Lexorder"
begin

text \<open>
  Kubernetes objects as the ingester sees them. An \<^verbatim>\<open>unstructured.Unstructured\<close> is a JSON object;
  its accessor methods, the key functions of \<^verbatim>\<open>client-go/tools/cache\<close> and the
  \<^verbatim>\<open>schema\<close> helpers are third-party code, so they are the fields of the record \<open>kube_api\<close>, an
  argument of every definition that calls them. What a theorem needs of them is one of the named
  laws at the end. \<^verbatim>\<open>encoding/json\<close> belongs to Go's standard library and is modelled here.

  Objects are shared by pointer between an informer's cache, the work queue and the event bus:
  a pointer is an \<open>objref\<close>, and the objects live in an explicit heap.
\<close>

subsection \<open>JSON values and encoding/json\<close>

text \<open>A \<^verbatim>\<open>float64\<close> is represented by the text that \<^verbatim>\<open>encoding/json\<close> prints for it.\<close>

datatype json =
    JNull
  | JBool bool
  | JInt int
  | JFloat string
  | JStr string
  | JArr "json list"
  | JObj "(string \<times> json) list"

definition byte_in :: "nat \<Rightarrow> nat \<Rightarrow> char \<Rightarrow> bool" where
  "byte_in lo hi c \<longleftrightarrow> lo \<le> (of_char c :: nat) \<and> (of_char c :: nat) \<le> hi"

text \<open>The length of the valid UTF-8 encoding at the front of a string, 0 when it is invalid.\<close>

fun rune_len :: "string \<Rightarrow> nat" where
  "rune_len [] = 0"
| "rune_len (a # s) =
     (let cont = byte_in 128 191 in
      if byte_in 0 127 a then 1
      else if byte_in 194 223 a then (case s of b # _ \<Rightarrow> if cont b then 2 else 0 | _ \<Rightarrow> 0)
      else if byte_in 224 239 a then
        (case s of b # c # _ \<Rightarrow>
            (if (if byte_in 224 224 a then byte_in 160 191 b
                 else if byte_in 237 237 a then byte_in 128 159 b else cont b) \<and> cont c
             then 3 else 0)
         | _ \<Rightarrow> 0)
      else if byte_in 240 244 a then
        (case s of b # c # d # _ \<Rightarrow>
            (if (if byte_in 240 240 a then byte_in 144 191 b
                 else if byte_in 244 244 a then byte_in 128 143 b else cont b) \<and> cont c \<and> cont d
             then 4 else 0)
         | _ \<Rightarrow> 0)
      else 0)"

definition hex_digit :: "nat \<Rightarrow> char" where
  "hex_digit n = (if n < 10 then char_of (48 + n) else char_of (87 + n))"

definition u00 :: "char \<Rightarrow> string" where
  "u00 c = CHR 0x5C # ''u00'' @ [hex_digit (of_char c div 16), hex_digit (of_char c mod 16)]"

definition escape_ascii :: "char \<Rightarrow> string" where
  "escape_ascii c =
     (if c = CHR 0x22 then [CHR 0x5C, CHR 0x22]
      else if c = CHR 0x5C then [CHR 0x5C, CHR 0x5C]
      else if c = CHR 0x08 then CHR 0x5C # ''b''
      else if c = CHR 0x0C then CHR 0x5C # ''f''
      else if c = CHR 0x0A then CHR 0x5C # ''n''
      else if c = CHR 0x0D then CHR 0x5C # ''r''
      else if c = CHR 0x09 then CHR 0x5C # ''t''
      else if byte_in 0 31 c \<or> c = CHR ''<'' \<or> c = CHR ''>'' \<or> c = CHR ''&'' then u00 c
      else [c])"

text \<open>
  String contents: ASCII is escaped bytewise (with HTML escaping, as \<^verbatim>\<open>Marshal\<close> does), an invalid
  byte becomes the escape of U+FFFD, U+2028 and U+2029 are escaped, other runes are copied. The
  first argument is the number of remaining bytes of a multi-byte rune being copied.
\<close>

fun escape_string :: "nat \<Rightarrow> string \<Rightarrow> string" where
  "escape_string _ [] = []"
| "escape_string (Suc k) (c # s) = c # escape_string k s"
| "escape_string 0 (c # s) =
     (let n = rune_len (c # s) in
      if n = 0 then CHR 0x5C # ''ufffd'' @ escape_string 0 s
      else if n = 1 then escape_ascii c @ escape_string 0 s
      else if take 3 (c # s) = [CHR 0xE2, CHR 0x80, CHR 0xA8]
        then CHR 0x5C # ''u2028'' @ escape_string 0 (drop 2 s)
      else if take 3 (c # s) = [CHR 0xE2, CHR 0x80, CHR 0xA9]
        then CHR 0x5C # ''u2029'' @ escape_string 0 (drop 2 s)
      else c # escape_string (n - 1) s)"

definition quote_string :: "string \<Rightarrow> string" where
  "quote_string s = CHR 0x22 # escape_string 0 s @ [CHR 0x22]"

definition print_int :: "int \<Rightarrow> string" where
  "print_int i = (if i < 0 then CHR ''-'' # itoa (nat (- i)) else itoa (nat i))"

text \<open>Object members are printed in the order of their keys.\<close>

primrec json_Marshal :: "json \<Rightarrow> string" where
  "json_Marshal JNull = ''null''"
| "json_Marshal (JBool b) = (if b then ''true'' else ''false'')"
| "json_Marshal (JInt i) = print_int i"
| "json_Marshal (JFloat t) = t"
| "json_Marshal (JStr s) = quote_string s"
| "json_Marshal (JArr xs) = ''['' @ strings_Join (map json_Marshal xs) '','' @ '']''"
| "json_Marshal (JObj kvs) =
     ''{'' @ strings_Join (map (\<lambda>kv. quote_string (fst kv) @ '':'' @ snd kv)
               (sort_key fst (map (map_prod id json_Marshal) kvs))) '','' @ ''}''"

subsection \<open>Type assertions on JSON values\<close>

text \<open>
  A missing key reads as a nil interface, on which every assertion fails. The two-value form of an
  assertion that fails yields the zero value, which the source uses for strings.
\<close>

fun as_map :: "json option \<Rightarrow> (string, json) gomap option" where
  "as_map (Some (JObj m)) = Some m"
| "as_map _ = None"

fun as_string :: "json option \<Rightarrow> string" where
  "as_string (Some (JStr s)) = s"
| "as_string _ = []"

fun as_slice :: "json option \<Rightarrow> json list option" where
  "as_slice (Some (JArr xs)) = Some xs"
| "as_slice _ = None"

subsection \<open>Objects, pointers, identifiers\<close>

record unstructured =
  Object :: "(string, json) gomap"

type_synonym objref = nat

text \<open>Pointers to other values that components only pass on.\<close>

type_synonym handle = nat

type_synonym oheap = "objref \<Rightarrow> unstructured"

text \<open>A value of type \<^verbatim>\<open>any\<close> as informers deliver it and as their stores hold it.\<close>

datatype anyobj =
    AnyNil
  | AnyUnstructured objref
  | AnyTombstone string anyobj
  | AnyOther string

record gvr =
  Group :: string
  Version :: string
  Resource :: string

lemma gvr_eta [simp]: "\<lparr>Group = Group g, Version = Version g, Resource = Resource g\<rparr> = (g :: gvr)"
  by (cases g) simp

record gvk =
  gvk_Group :: string
  gvk_Version :: string
  gvk_Kind :: string

record gotime =
  unixNano :: int
  location :: string

text \<open>\<^verbatim>\<open>time.Time.UTC\<close>: the same instant with the location set to UTC.\<close>

definition time_UTC :: "gotime \<Rightarrow> gotime" where
  "time_UTC t = t\<lparr>location := ''UTC''\<rparr>"

record kube_api =
  GetName :: "unstructured \<Rightarrow> string"
  GetNamespace :: "unstructured \<Rightarrow> string"
  GetKind :: "unstructured \<Rightarrow> string"
  GetAPIVersion :: "unstructured \<Rightarrow> string"
  GetUID :: "unstructured \<Rightarrow> string"
  GetResourceVersion :: "unstructured \<Rightarrow> string"
  GetLabels :: "unstructured \<Rightarrow> (string, string) gomap"
  GetCreationTimestamp :: "unstructured \<Rightarrow> gotime"
  GetDeletionTimestamp :: "unstructured \<Rightarrow> gotime option"
  SetDeletionTimestamp :: "unstructured \<Rightarrow> gotime option \<Rightarrow> unstructured"
  MetaNamespaceKeyFunc :: "unstructured \<Rightarrow> goerror + string"
  SplitMetaNamespaceKey :: "string \<Rightarrow> goerror + (string \<times> string)"
  ParseGroupVersion :: "string \<Rightarrow> goerror + (string \<times> string)"
  gvr_String :: "gvr \<Rightarrow> string"
  gvr_Empty :: "gvr \<Rightarrow> bool"

subsection \<open>What the ingester relies on\<close>

text \<open>
  \<^verbatim>\<open>MetaNamespaceKeyFunc\<close> uses the format namespace, slash, name, or just the name when the namespace
  is empty; \<^verbatim>\<open>SplitMetaNamespaceKey\<close> returns the namespace and name encoded in such a key. Names
  and namespaces of Kubernetes objects contain no slash.
\<close>

definition meta_key :: "string \<Rightarrow> string \<Rightarrow> string" where
  "meta_key ns n = (if ns = [] then n else ns @ ''/'' @ n)"

definition meta_key_law :: "kube_api \<Rightarrow> bool" where
  "meta_key_law api \<longleftrightarrow>
     (\<forall>u k. MetaNamespaceKeyFunc api u = Inr k \<longrightarrow>
        k = meta_key (GetNamespace api u) (GetName api u)) \<and>
     (\<forall>ns n. CHR ''/'' \<notin> set ns \<longrightarrow> CHR ''/'' \<notin> set n \<longrightarrow>
        SplitMetaNamespaceKey api (meta_key ns n) = Inr (ns, n))"

definition obj_clean :: "kube_api \<Rightarrow> unstructured \<Rightarrow> bool" where
  "obj_clean api u \<longleftrightarrow>
     CHR ''/'' \<notin> set (GetNamespace api u) \<and> CHR ''/'' \<notin> set (GetName api u)"

text \<open>
  The deletion timestamp: setting nil removes it, setting a time leaves one, and the other metadata
  the ingester reads are unchanged. (The accessor pair stores seconds, so that the time read back
  need not be the one stored.)
\<close>

definition deletion_law :: "kube_api \<Rightarrow> bool" where
  "deletion_law api \<longleftrightarrow>
     (\<forall>u. GetDeletionTimestamp api (SetDeletionTimestamp api u None) = None) \<and>
     (\<forall>u t. GetDeletionTimestamp api (SetDeletionTimestamp api u (Some t)) \<noteq> None) \<and>
     (\<forall>u t. GetUID api (SetDeletionTimestamp api u t) = GetUID api u) \<and>
     (\<forall>u t. GetName api (SetDeletionTimestamp api u t) = GetName api u) \<and>
     (\<forall>u t. GetNamespace api (SetDeletionTimestamp api u t) = GetNamespace api u) \<and>
     (\<forall>u t. GetKind api (SetDeletionTimestamp api u t) = GetKind api u) \<and>
     (\<forall>u t. GetAPIVersion api (SetDeletionTimestamp api u t) = GetAPIVersion api u) \<and>
     (\<forall>u t. GetLabels api (SetDeletionTimestamp api u t) = GetLabels api u) \<and>
     (\<forall>u t. GetCreationTimestamp api (SetDeletionTimestamp api u t) = GetCreationTimestamp api u)"

lemma meta_key_law_format:
  "meta_key_law api \<Longrightarrow> MetaNamespaceKeyFunc api u = Inr k \<Longrightarrow>
     k = meta_key (GetNamespace api u) (GetName api u)"
  by (auto simp: meta_key_law_def)

lemma meta_key_lawD:
  assumes "meta_key_law api" and "obj_clean api u" and "MetaNamespaceKeyFunc api u = Inr k"
  shows "SplitMetaNamespaceKey api k = Inr (GetNamespace api u, GetName api u)"
  using assms by (auto simp: meta_key_law_def obj_clean_def)

lemma deletion_lawD:
  assumes "deletion_law api"
  shows "GetDeletionTimestamp api (SetDeletionTimestamp api u None) = None"
    and "GetDeletionTimestamp api (SetDeletionTimestamp api u (Some t)) \<noteq> None"
    and "GetUID api (SetDeletionTimestamp api u ts) = GetUID api u"
    and "GetName api (SetDeletionTimestamp api u ts) = GetName api u"
    and "GetNamespace api (SetDeletionTimestamp api u ts) = GetNamespace api u"
    and "GetKind api (SetDeletionTimestamp api u ts) = GetKind api u"
    and "GetAPIVersion api (SetDeletionTimestamp api u ts) = GetAPIVersion api u"
    and "GetLabels api (SetDeletionTimestamp api u ts) = GetLabels api u"
    and "GetCreationTimestamp api (SetDeletionTimestamp api u ts) = GetCreationTimestamp api u"
  using assms by (auto simp: deletion_law_def)

end
