(* ===== verification/Telemetry.thy ===== *)
theory Telemetry
  imports GoPrelude
begin

text \<open>
  \<^verbatim>\<open>internal/telemetry/metrics.go\<close>: the metrics handle every component reports to. The
  OpenTelemetry instruments are third-party objects; the model keeps the calls made on them, in
  order. A nil handle (\<^verbatim>\<open>OTEL_ENABLED\<close> off, or a component built without one) is \<^term>\<open>None\<close>, and
  every method is a no-op on it.
\<close>

record telemetry_Config =
  Enabled :: bool
  ServiceName :: string
  ExportInterval :: int

datatype instrument_call =
    CounterAdd string int "(string \<times> string) list"
  | HistogramSeconds string int
  | HistogramInt string int

record Metrics =
  calls :: "instrument_call list"
  queueDepth :: int
  recordChannelDepth :: int
  goRoutines :: int
  activeInformerKinds :: int

definition instrument_names :: "string list" where
  "instrument_names =
     [''resources_ingester.resources.received'',
      ''resources_ingester.resources.dispatched'',
      ''resources_ingester.resources.dropped'',
      ''resources_ingester.batch.flush.duration_seconds'',
      ''resources_ingester.batch.flush.size'',
      ''resources_ingester.db.insert.rows'',
      ''resources_ingester.db.insert.failure'',
      ''resources_ingester.queue.depth'',
      ''resources_ingester.record_channel.depth'']"

text \<open>
  Creating an instrument and registering the callback may fail: \<open>create\<close> gives the error for a
  name, \<open>register\<close> the callback's. The first failure is returned.
\<close>

fun create_all :: "(string \<Rightarrow> goerror option) \<Rightarrow> string list \<Rightarrow> goerror option" where
  "create_all create [] = None"
| "create_all create (n # ns) =
     (case create n of Some e \<Rightarrow> Some e | None \<Rightarrow> create_all create ns)"

definition newMetrics ::
  "(string \<Rightarrow> goerror option) \<Rightarrow> goerror option \<Rightarrow> goerror + Metrics" where
  "newMetrics create register =
     (case create_all create instrument_names of
        Some e \<Rightarrow> Inl e
      | None \<Rightarrow>
          (case register of
             Some e \<Rightarrow> Inl e
           | None \<Rightarrow> Inr \<lparr>calls = [], queueDepth = 0, recordChannelDepth = 0,
                          goRoutines = 0, activeInformerKinds = 0\<rparr>))"

text \<open>What the registered callback reports: the two observable gauges.\<close>

definition observe :: "Metrics \<Rightarrow> (string \<times> int) list" where
  "observe m =
     [(''resources_ingester.queue.depth'', queueDepth m),
      (''resources_ingester.record_channel.depth'', recordChannelDepth m)]"

text \<open>
  \<^verbatim>\<open>Setup\<close>: disabled gives a nil handle and no error. \<open>exporter\<close>, \<open>merge\<close>, \<open>create\<close> and
  \<open>register\<close> are the OpenTelemetry calls' errors.
\<close>

definition telemetry_Setup ::
  "goerror option \<Rightarrow> goerror option \<Rightarrow> (string \<Rightarrow> goerror option) \<Rightarrow> goerror option \<Rightarrow>
     telemetry_Config \<Rightarrow> goerror + Metrics option" where
  "telemetry_Setup exporter merge create register cfg =
     (if \<not> Enabled cfg then Inr None
      else case exporter of Some e \<Rightarrow> Inl e
      | None \<Rightarrow>
          (case merge of Some e \<Rightarrow> Inl e
           | None \<Rightarrow>
               (case newMetrics create register of
                  Inl e \<Rightarrow> Inl e
                | Inr m \<Rightarrow> Inr (Some m))))"

definition add_call :: "instrument_call \<Rightarrow> Metrics \<Rightarrow> Metrics" where
  "add_call c m = m\<lparr>calls := calls m @ [c]\<rparr>"

definition IncResourcesReceived :: "Metrics option \<Rightarrow> Metrics option" where
  "IncResourcesReceived m =
     map_option (add_call (CounterAdd ''resources_ingester.resources.received'' 1 [])) m"

definition IncResourcesDispatched :: "Metrics option \<Rightarrow> Metrics option" where
  "IncResourcesDispatched m =
     map_option (add_call (CounterAdd ''resources_ingester.resources.dispatched'' 1 [])) m"

definition IncResourcesDropped :: "Metrics option \<Rightarrow> string \<Rightarrow> Metrics option" where
  "IncResourcesDropped m reason =
     map_option (add_call (CounterAdd ''resources_ingester.resources.dropped'' 1
                            [(''reason'', reason)])) m"

definition RecordBatchFlush :: "Metrics option \<Rightarrow> int \<Rightarrow> int \<Rightarrow> Metrics option" where
  "RecordBatchFlush m d sz =
     map_option (\<lambda>m.
       let m = add_call (HistogramSeconds ''resources_ingester.batch.flush.duration_seconds'' d) m
       in if sz > 0 then add_call (HistogramInt ''resources_ingester.batch.flush.size'' sz) m
          else m) m"

definition AddDBInsertRows :: "Metrics option \<Rightarrow> int \<Rightarrow> Metrics option" where
  "AddDBInsertRows m rows =
     (case m of None \<Rightarrow> None
      | Some m' \<Rightarrow> if rows \<le> 0 then m
          else Some (add_call (CounterAdd ''resources_ingester.db.insert.rows'' rows []) m'))"

definition IncDBInsertFailure :: "Metrics option \<Rightarrow> string \<Rightarrow> Metrics option" where
  "IncDBInsertFailure m failureType =
     map_option (add_call (CounterAdd ''resources_ingester.db.insert.failure'' 1
                            [(''type'', failureType)])) m"

definition SetQueueDepth :: "Metrics option \<Rightarrow> int \<Rightarrow> Metrics option" where
  "SetQueueDepth m depth = map_option (\<lambda>m. m\<lparr>queueDepth := depth\<rparr>) m"

definition SetRecordChannelDepth :: "Metrics option \<Rightarrow> int \<Rightarrow> Metrics option" where
  "SetRecordChannelDepth m depth = map_option (\<lambda>m. m\<lparr>recordChannelDepth := depth\<rparr>) m"

definition SetGoRoutines :: "Metrics option \<Rightarrow> int \<Rightarrow> Metrics option" where
  "SetGoRoutines m num = map_option (\<lambda>m. m\<lparr>goRoutines := num\<rparr>) m"

definition SetActiveInformerKinds :: "Metrics option \<Rightarrow> int \<Rightarrow> Metrics option" where
  "SetActiveInformerKinds m num = map_option (\<lambda>m. m\<lparr>activeInformerKinds := num\<rparr>) m"

lemmas metrics_defs [go_simps] =
  IncResourcesReceived_def IncResourcesDispatched_def IncResourcesDropped_def
  RecordBatchFlush_def AddDBInsertRows_def IncDBInsertFailure_def
  SetQueueDepth_def SetRecordChannelDepth_def SetGoRoutines_def SetActiveInformerKinds_def

text \<open>Sums of the measurements a counter has received, and which atomic gauges are exported.\<close>

fun counter_total :: "string \<Rightarrow> instrument_call list \<Rightarrow> int" where
  "counter_total n [] = 0"
| "counter_total n (CounterAdd n' k a # cs) = (if n' = n then k else 0) + counter_total n cs"
| "counter_total n (_ # cs) = counter_total n cs"

lemma counter_total_append:
  "counter_total n (xs @ ys) = counter_total n xs + counter_total n ys"
  by (induction n xs rule: counter_total.induct) auto

lemma create_all_eq_None: "create_all create ns = None \<longleftrightarrow> (\<forall>n \<in> set ns. create n = None)"
  by (induction ns) (auto split: option.splits)

end
