(* ===== verification/Batch.thy ===== *)
theory Batch
  imports KubeTypes Telemetry GoChan
begin

text \<open>
  \<^verbatim>\<open>internal/batch/\<close>: records, the batch worker, and the SQL statement it builds.

  The PostgreSQL pool is third-party: its \<^verbatim>\<open>Exec\<close> is the argument \<open>exec\<close>, on a database state of any
  type. The order in which the map of a batch is visited is the argument \<open>ord\<close>; Go leaves it open,
  and \<open>any_order\<close> is all that theorems assume of it.
\<close>

subsection \<open>Records\<close>

record InsertRecord =
  CreatedAt :: "gotime option"
  UpdatedAt :: "gotime option"
  DeletedAt :: "gotime option"
  ClusterName :: string
  UID :: string
  GlobalUID :: string
  RecNamespace :: string
  ResourceGroup :: string
  ResourceVersion :: string
  ResourceKind :: string
  ResourceName :: string
  ResourcePlural :: string
  CompositionID :: string
  Raw :: string
  StatusRaw :: "string option"

text \<open>Statement arguments: pointers to times, strings, byte slices (nil is \<^term>\<open>None\<close>).\<close>

datatype sqlval = VTime "gotime option" | VStr string | VBytes "string option"

subsection \<open>Embedded SQL\<close>

definition MustLoadSQL :: "(string, string) gomap \<Rightarrow> string \<Rightarrow> string outcome" where
  "MustLoadSQL sqlFS filename =
     (let filename = (if strings_HasPrefix filename ''assets'' then filename
                      else ''assets/'' @ filename)
      in case map_of sqlFS filename of
           None \<Rightarrow> Panic (''open '' @ filename @ '': file does not exist'')
         | Some b \<Rightarrow> Ok (strings_TrimSpace b))"

definition batch_sql_fs :: "(string, string) gomap" where
  "batch_sql_fs =
     [(''assets/cols.sql'',
       strings_Join
         [''-- Ordered list of columns used by COPY'', ''created_at,'', ''updated_at,'',
          ''deleted_at,'', ''cluster_name,'', ''uid,'', ''global_uid,'', ''namespace,'',
          ''resource_group,'', ''resource_version,'', ''resource_kind,'', ''resource_plural,'',
          ''resource_name,'', ''composition_id,'', ''raw,'', ''status_raw''] [CHR 0x0A])]"

fun parse_columns_loop :: "string list \<Rightarrow> string list \<Rightarrow> string list" where
  "parse_columns_loop [] out = out"
| "parse_columns_loop (l # ls) out =
     (let c = strings_TrimSpace l in
      parse_columns_loop ls (if c \<noteq> [] then out @ [c] else out))"

definition parseColumns :: "string \<Rightarrow> string list" where
  "parseColumns s = parse_columns_loop (strings_Split s CHR '','') []"

subsection \<open>The worker\<close>

record Worker =
  buffer :: "InsertRecord list"
  maxBatch :: int
  flushEvery :: int
  columns :: "string list"

text \<open>
  The pool, the channel and the metrics of the options are arguments and state of the operations below.
  Durations are in nanoseconds. A negative capacity is a run-time panic of \<^verbatim>\<open>make\<close>.
\<close>

record WorkerOpts =
  MaxBatch :: int
  FlushEvery :: int

definition NewWorker :: "(string, string) gomap \<Rightarrow> WorkerOpts \<Rightarrow> Worker outcome" where
  "NewWorker sqlFS opts =
     bind_outcome (MustLoadSQL sqlFS ''cols.sql'') (\<lambda>cols.
       if MaxBatch opts < 0 then Panic ''makeslice: cap out of range''
       else Ok \<lparr>buffer = [], maxBatch = MaxBatch opts, flushEvery = FlushEvery opts,
               columns = parseColumns cols\<rparr>)"

subsection \<open>sync\<close>

fun dedup_loop :: "InsertRecord list \<Rightarrow> (string, InsertRecord) gomap \<Rightarrow> (string, InsertRecord) gomap"
where
  "dedup_loop [] seen = seen"
| "dedup_loop (r # rs) seen = dedup_loop rs (AList.update (GlobalUID r) r seen)"

text \<open>The placeholders of one row: \<open>base\<close> is the number of values so far.\<close>

fun placeholder_loop :: "nat \<Rightarrow> nat \<Rightarrow> string list \<Rightarrow> string \<Rightarrow> string" where
  "placeholder_loop base j [] b = b"
| "placeholder_loop base j (c # cs) b =
     placeholder_loop base (Suc j) cs
       ((if j > 0 then b @ '', '' else b) @ ''$'' @ itoa (base + j + 1))"

text \<open>
  The loop over the records, with the string builder, the values so far and the first-row flag. The
  creation and update times are dereferenced; the deletion time may be nil.
\<close>

fun sync_rows_loop ::
  "string list \<Rightarrow> InsertRecord list \<Rightarrow> bool \<Rightarrow> string \<Rightarrow> sqlval list \<Rightarrow> (string \<times> sqlval list) outcome"
where
  "sync_rows_loop cols [] firstRow b vals = Ok (b, vals)"
| "sync_rows_loop cols (r # rs) firstRow b vals =
     (let b = (if \<not> firstRow then b @ '', '' else b);
          b = placeholder_loop (length vals) 0 cols (b @ ''('') @ '')'';
          da = map_option time_UTC (DeletedAt r)
      in case (CreatedAt r, UpdatedAt r) of
           (Some ca, Some ua) \<Rightarrow>
             sync_rows_loop cols rs False b
               (vals @ [VTime (Some (time_UTC ca)), VTime (Some (time_UTC ua)), VTime da,
                        VStr (ClusterName r), VStr (UID r), VStr (GlobalUID r),
                        VStr (RecNamespace r), VStr (ResourceGroup r), VStr (ResourceVersion r),
                        VStr (ResourceKind r), VStr (ResourcePlural r), VStr (ResourceName r),
                        VStr (CompositionID r), VBytes (Some (Raw r)), VBytes (StatusRaw r)])
         | _ \<Rightarrow> Panic ''nil pointer dereference'')"

definition conflict_clause :: string where
  "conflict_clause =
     [CHR 0x0A, CHR 0x09, CHR 0x09] @ ''ON CONFLICT (global_uid) DO UPDATE SET'' @
     [CHR 0x0A, CHR 0x09, CHR 0x09, CHR 0x09] @ ''deleted_at = EXCLUDED.deleted_at,'' @
     [CHR 0x0A, CHR 0x09, CHR 0x09, CHR 0x09] @ ''raw = EXCLUDED.raw'' @
     [CHR 0x0A, CHR 0x09]"

definition insert_header :: "string list \<Rightarrow> string" where
  "insert_header cols =
     ''INSERT INTO krateo_resources ('' @ strings_Join cols '', '' @ '') VALUES ''"

definition sync ::
  "('db \<Rightarrow> string \<Rightarrow> sqlval list \<Rightarrow> 'db \<times> goerror option) \<Rightarrow>
     ((string, InsertRecord) gomap \<Rightarrow> (string, InsertRecord) gomap) \<Rightarrow>
     Worker \<Rightarrow> 'db \<Rightarrow> Metrics option \<Rightarrow> ('db \<times> Metrics option) outcome" where
  "sync exec ord w db m =
     (let batchSize = length (buffer w);
          seen = dedup_loop (buffer w) [];
          records = map snd (ord seen)
      in bind_outcome (sync_rows_loop (columns w) records True (insert_header (columns w)) [])
           (\<lambda>(b, vals).
              let b = b @ conflict_clause in
              if length vals = 0 then Ok (db, m)
              else (let (db, err) = exec db b vals in
                    if err \<noteq> None then Ok (db, IncDBInsertFailure m ''error'')
                    else Ok (db, AddDBInsertRows m (int batchSize)))))"

text \<open>\<open>dur\<close> is the measured duration of the flush.\<close>

definition flush ::
  "('db \<Rightarrow> string \<Rightarrow> sqlval list \<Rightarrow> 'db \<times> goerror option) \<Rightarrow>
     ((string, InsertRecord) gomap \<Rightarrow> (string, InsertRecord) gomap) \<Rightarrow> int \<Rightarrow>
     Worker \<Rightarrow> 'db \<Rightarrow> Metrics option \<Rightarrow> (Worker \<times> 'db \<times> Metrics option) outcome" where
  "flush exec ord dur w db m =
     (if length (buffer w) = 0 then Ok (w, db, m)
      else (let batchSize = length (buffer w) in
            bind_outcome (sync exec ord w db m) (\<lambda>(db, m).
              Ok (w\<lparr>buffer := []\<rparr>, db, RecordBatchFlush m dur (int batchSize)))))"

subsection \<open>Run\<close>

text \<open>
  The select loop, one case per event that a \<^verbatim>\<open>select\<close> can choose: a record arrives, the ticker fires,
  the stop channel is closed. After stopping, the worker takes no further event. \<open>flushes\<close> counts the
  flushes: \<open>ord n\<close> is the order in which the n-th one visits its map, and \<open>dur n\<close> is its measured duration.
\<close>

datatype batch_event = Recv InsertRecord | Tick | Stop

record 'db batch_state =
  worker :: Worker
  db :: 'db
  bmetrics :: "Metrics option"
  stopped :: bool
  flushes :: nat

definition flush_state ::
  "('db \<Rightarrow> string \<Rightarrow> sqlval list \<Rightarrow> 'db \<times> goerror option) \<Rightarrow>
     (nat \<Rightarrow> (string, InsertRecord) gomap \<Rightarrow> (string, InsertRecord) gomap) \<Rightarrow> (nat \<Rightarrow> int) \<Rightarrow>
     'db batch_state \<Rightarrow> 'db batch_state outcome" where
  "flush_state exec ord dur s =
     bind_outcome (flush exec (ord (flushes s)) (dur (flushes s)) (worker s) (db s) (bmetrics s)) (\<lambda>(w, d, m).
       Ok (s\<lparr>worker := w, db := d, bmetrics := m, flushes := Suc (flushes s)\<rparr>))"

fun batch_step ::
  "('db \<Rightarrow> string \<Rightarrow> sqlval list \<Rightarrow> 'db \<times> goerror option) \<Rightarrow>
     (nat \<Rightarrow> (string, InsertRecord) gomap \<Rightarrow> (string, InsertRecord) gomap) \<Rightarrow> (nat \<Rightarrow> int) \<Rightarrow>
     'db batch_state \<Rightarrow> batch_event \<Rightarrow> 'db batch_state outcome" where
  "batch_step exec ord dur s (Recv rec) =
     (let s = s\<lparr>worker := (worker s)\<lparr>buffer := buffer (worker s) @ [rec]\<rparr>\<rparr> in
      if int (length (buffer (worker s))) \<ge> maxBatch (worker s) then flush_state exec ord dur s
      else Ok s)"
| "batch_step exec ord dur s Tick =
     (if length (buffer (worker s)) > 0 then flush_state exec ord dur s else Ok s)"
| "batch_step exec ord dur s Stop =
     bind_outcome
       (if length (buffer (worker s)) > 0 then flush_state exec ord dur s else Ok s)
       (\<lambda>s. Ok (s\<lparr>stopped := True\<rparr>))"

fun batch_run ::
  "('db \<Rightarrow> string \<Rightarrow> sqlval list \<Rightarrow> 'db \<times> goerror option) \<Rightarrow>
     (nat \<Rightarrow> (string, InsertRecord) gomap \<Rightarrow> (string, InsertRecord) gomap) \<Rightarrow> (nat \<Rightarrow> int) \<Rightarrow>
     'db batch_state \<Rightarrow> batch_event list \<Rightarrow> 'db batch_state outcome" where
  "batch_run exec ord dur s [] = Ok s"
| "batch_run exec ord dur s (e # es) =
     (if stopped s then Ok s
      else bind_outcome (batch_step exec ord dur s e) (\<lambda>s. batch_run exec ord dur s es))"

text \<open>\<^verbatim>\<open>Run\<close> makes the ticker first, which panics for an interval that is not positive.\<close>

definition batch_Run ::
  "('db \<Rightarrow> string \<Rightarrow> sqlval list \<Rightarrow> 'db \<times> goerror option) \<Rightarrow>
     (nat \<Rightarrow> (string, InsertRecord) gomap \<Rightarrow> (string, InsertRecord) gomap) \<Rightarrow> (nat \<Rightarrow> int) \<Rightarrow>
     'db batch_state \<Rightarrow> batch_event list \<Rightarrow> 'db batch_state outcome" where
  "batch_Run exec ord dur s es =
     (if flushEvery (worker s) \<le> 0 then Panic ''non-positive interval for NewTicker''
      else batch_run exec ord dur s es)"

subsection \<open>delete\<close>

text \<open>The deletion statement; its only call, in \<^verbatim>\<open>flush\<close>, is commented out.\<close>

fun delete_loop :: "InsertRecord list \<Rightarrow> nat \<Rightarrow> string \<Rightarrow> sqlval list \<Rightarrow> string \<times> sqlval list" where
  "delete_loop [] paramIndex b vals = (b, vals)"
| "delete_loop (r # rs) paramIndex b vals =
     (if DeletedAt r \<noteq> None
      then delete_loop rs (Suc paramIndex)
             ((if paramIndex > 1 then b @ '', '' else b) @ ''$'' @ itoa paramIndex)
             (vals @ [VStr (GlobalUID r)])
      else delete_loop rs paramIndex b vals)"

definition batch_delete ::
  "('db \<Rightarrow> string \<Rightarrow> sqlval list \<Rightarrow> 'db \<times> goerror option) \<Rightarrow> Worker \<Rightarrow> 'db \<Rightarrow> 'db" where
  "batch_delete exec w d =
     (let (b, vals) = delete_loop (buffer w) 1
            ''DELETE FROM k8s_resources WHERE global_uid IN ('' [];
          b = b @ '')''
      in if length vals = 0 then d else fst (exec d b vals))"

subsection \<open>InsertRecordJob\<close>

text \<open>The job's \<^verbatim>\<open>Input\<close> channel is the state it runs on; \<^term>\<open>None\<close> while the send blocks.\<close>

record InsertRecordJob =
  Record :: InsertRecord

definition InsertRecordJob_Job ::
  "InsertRecordJob \<Rightarrow> InsertRecord chan \<Rightarrow> InsertRecord chan outcome option" where
  "InsertRecordJob_Job j input =
     (case chan_send input (Record j) of
        Sent c \<Rightarrow> Some (Ok c)
      | SendBlocks \<Rightarrow> None
      | SendPanics \<Rightarrow> Some (Panic ''send on closed channel''))"

subsection \<open>Reference definitions\<close>

definition any_order :: "((string, InsertRecord) gomap \<Rightarrow> (string, InsertRecord) gomap) \<Rightarrow> bool" where
  "any_order ord \<longleftrightarrow> (\<forall>m. mset (ord m) = mset m)"

text \<open>Records as \<^verbatim>\<open>buildRecord\<close> makes them have a creation and an update time.\<close>

definition timed :: "InsertRecord \<Rightarrow> bool" where
  "timed r \<longleftrightarrow> CreatedAt r \<noteq> None \<and> UpdatedAt r \<noteq> None"

definition row_values :: "InsertRecord \<Rightarrow> sqlval list" where
  "row_values r =
     [VTime (map_option time_UTC (CreatedAt r)), VTime (map_option time_UTC (UpdatedAt r)),
      VTime (map_option time_UTC (DeletedAt r)), VStr (ClusterName r), VStr (UID r),
      VStr (GlobalUID r), VStr (RecNamespace r), VStr (ResourceGroup r), VStr (ResourceVersion r),
      VStr (ResourceKind r), VStr (ResourcePlural r), VStr (ResourceName r),
      VStr (CompositionID r), VBytes (Some (Raw r)), VBytes (StatusRaw r)]"

definition placeholders :: "nat \<Rightarrow> nat \<Rightarrow> string list" where
  "placeholders base n = map (\<lambda>j. ''$'' @ itoa (base + j + 1)) [0..<n]"

definition row_text :: "string list \<Rightarrow> string" where
  "row_text ps = ''('' @ strings_Join ps '', '' @ '')''"

text \<open>The last record of a batch with a given global identifier.\<close>

definition last_write :: "InsertRecord list \<Rightarrow> string \<Rightarrow> InsertRecord option" where
  "last_write rs u = map_of (map (\<lambda>r. (GlobalUID r, r)) (rev rs)) u"

definition batch_rows ::
  "((string, InsertRecord) gomap \<Rightarrow> (string, InsertRecord) gomap) \<Rightarrow> InsertRecord list \<Rightarrow> InsertRecord list"
where
  "batch_rows ord rs = map snd (ord (dedup_loop rs []))"

text \<open>The statement for a list of rows.\<close>

definition insert_sql :: "string list \<Rightarrow> nat \<Rightarrow> string" where
  "insert_sql cols n =
     insert_header cols @
     strings_Join (map (\<lambda>i. row_text (placeholders (15 * i) (length cols))) [0..<n]) '', '' @
     conflict_clause"

subsection \<open>Lemmas\<close>

lemma Join_upt_Cons:
  "i < n \<Longrightarrow> strings_Join (map f [i..<n]) sep =
     f i @ (if Suc i < n then sep @ strings_Join (map f [Suc i..<n]) sep else [])"
  by (auto simp: upt_conv_Cons strings_Join_Cons)

lemma placeholder_loop_eq:
  "placeholder_loop base j cs b =
     b @ (if j > 0 \<and> cs \<noteq> [] then '', '' else []) @
     strings_Join (map (\<lambda>i. ''$'' @ itoa (base + i + 1)) [j..<j + length cs]) '', ''"
proof (induction cs arbitrary: j b)
  case Nil
  then show ?case by simp
next
  case (Cons c cs)
  have "strings_Join (map (\<lambda>i. ''$'' @ itoa (base + i + 1)) [j..<j + length (c # cs)]) '', '' =
      (''$'' @ itoa (base + j + 1)) @ (if cs \<noteq> [] then '', '' @
         strings_Join (map (\<lambda>i. ''$'' @ itoa (base + i + 1)) [Suc j..<Suc j + length cs]) '', '' else [])"
    by (subst Join_upt_Cons) auto
  then show ?case using Cons [of "Suc j"] by simp
qed

lemma row_placeholders:
  "placeholder_loop base 0 cols b = b @ strings_Join (placeholders base (length cols)) '', ''"
  by (simp add: placeholder_loop_eq placeholders_def)

lemma length_row_values [simp]: "length (row_values r) = 15"
  by (simp add: row_values_def)

lemma length_concat_rows: "length (concat (map row_values rs)) = 15 * length rs"
  by (induction rs) auto

lemma concat_rows_Nil: "concat (map row_values rs) = [] \<longleftrightarrow> rs = []"
  by (cases rs) (simp_all add: row_values_def)

lemma sync_rows_loop_eq:
  assumes "\<forall>r \<in> set rs. timed r"
  shows "sync_rows_loop cols rs fst_row b vals =
     Ok (b @ (if \<not> fst_row \<and> rs \<noteq> [] then '', '' else []) @
         strings_Join (map (\<lambda>i. row_text (placeholders (length vals + 15 * i) (length cols)))
           [0..<length rs]) '', '',
         vals @ concat (map row_values rs))"
  using assms
proof (induction rs arbitrary: fst_row b vals)
  case Nil
  then show ?case by simp
next
  case (Cons r rs)
  then obtain ca ua where t: "CreatedAt r = Some ca" "UpdatedAt r = Some ua"
    by (auto simp: timed_def)
  have shift: "map (\<lambda>i. row_text (placeholders (length vals + 15 * i) (length cols)))
        [0..<Suc (length rs)] =
      row_text (placeholders (length vals) (length cols)) #
      map (\<lambda>i. row_text (placeholders ((length vals + 15) + 15 * i) (length cols))) [0..<length rs]"
    by (simp add: map_upt_Suc algebra_simps del: upt_Suc)
  have vals: "vals @ row_values r =
      vals @ [VTime (Some (time_UTC ca)), VTime (Some (time_UTC ua)),
        VTime (map_option time_UTC (DeletedAt r)), VStr (ClusterName r), VStr (UID r),
        VStr (GlobalUID r), VStr (RecNamespace r), VStr (ResourceGroup r), VStr (ResourceVersion r),
        VStr (ResourceKind r), VStr (ResourcePlural r), VStr (ResourceName r),
        VStr (CompositionID r), VBytes (Some (Raw r)), VBytes (StatusRaw r)]"
    by (simp add: row_values_def t)
  have step: "sync_rows_loop cols (r # rs) fst_row b vals =
      sync_rows_loop cols rs False
        (b @ (if fst_row then [] else '', '') @ row_text (placeholders (length vals) (length cols)))
        (vals @ row_values r)"
    by (simp add: t vals row_placeholders row_text_def Let_def)
  show ?case
    unfolding step using Cons.prems
    by (subst Cons.IH) (auto simp: shift strings_Join_Cons simp del: upt_Suc)
qed

lemma dedup_loop_lookup:
  "map_of (dedup_loop rs seen) u =
     (case last_write rs u of None \<Rightarrow> map_of seen u | Some r \<Rightarrow> Some r)"
  by (induction rs arbitrary: seen)
     (auto simp: last_write_def update_conv' map_add_def split: option.splits)

lemma dedup_loop_wf: "wf_map seen \<Longrightarrow> wf_map (dedup_loop rs seen)"
  by (induction rs arbitrary: seen) (auto simp: wf_map_update)

lemma last_write_Some:
  "last_write rs u = Some r \<Longrightarrow> r \<in> set rs \<and> GlobalUID r = u"
  by (auto simp: last_write_def dest: map_of_SomeD)

lemma last_write_None: "last_write rs u = None \<longleftrightarrow> u \<notin> GlobalUID ` set rs"
  by (simp add: last_write_def map_of_eq_None_iff image_image)

lemma dedup_entries:
  "(u, r) \<in> set (dedup_loop rs []) \<longleftrightarrow> last_write rs u = Some r"
  using dedup_loop_wf [of "[]" rs]
  by (auto simp: set_map_of dedup_loop_lookup split: option.splits)

lemma set_ord: "any_order ord \<Longrightarrow> set (ord m) = set m"
  by (metis any_order_def mset_eq_setD)

lemma batch_rows_set:
  assumes "any_order ord"
  shows "set (batch_rows ord rs) = {r. last_write rs (GlobalUID r) = Some r}"
proof -
  have "set (batch_rows ord rs) = snd ` set (dedup_loop rs [])"
    using assms by (simp add: batch_rows_def set_ord)
  also have "\<dots> = {r. last_write rs (GlobalUID r) = Some r}"
  proof (intro set_eqI iffI)
    fix r
    assume "r \<in> snd ` set (dedup_loop rs [])"
    then obtain u where "last_write rs u = Some r" by (auto simp: dedup_entries)
    then show "r \<in> {r. last_write rs (GlobalUID r) = Some r}" using last_write_Some by auto
  next
    fix r
    assume "r \<in> {r. last_write rs (GlobalUID r) = Some r}"
    then have "(GlobalUID r, r) \<in> set (dedup_loop rs [])" by (simp add: dedup_entries)
    then show "r \<in> snd ` set (dedup_loop rs [])" by force
  qed
  finally show ?thesis .
qed

lemma batch_rows_subset: "any_order ord \<Longrightarrow> set (batch_rows ord rs) \<subseteq> set rs"
  by (auto simp: batch_rows_set dest: last_write_Some)

lemma batch_rows_distinct:
  assumes "any_order ord"
  shows "distinct (map GlobalUID (batch_rows ord rs))"
proof -
  let ?es = "ord (dedup_loop rs [])"
  have "distinct (map fst (dedup_loop rs []))"
    using dedup_loop_wf [of "[]" rs] by (simp add: wf_map_def)
  moreover have "mset (map fst ?es) = mset (map fst (dedup_loop rs []))"
    using assms by (simp add: any_order_def)
  ultimately have "distinct (map fst ?es)" by (metis mset_eq_imp_distinct_iff)
  moreover have "map GlobalUID (batch_rows ord rs) = map fst ?es"
    using assms by (auto simp: batch_rows_def set_ord dedup_entries dest: last_write_Some)
  ultimately show ?thesis by simp
qed

lemma length_batch_rows:
  assumes "any_order ord"
  shows "length (batch_rows ord rs) \<le> length rs"
proof -
  have "length (batch_rows ord rs) = card (set (batch_rows ord rs))"
    using batch_rows_distinct [OF assms, of rs]
    by (metis distinct_card distinct_map)
  also have "\<dots> \<le> card (set rs)"
    using batch_rows_subset [OF assms] by (intro card_mono) auto
  finally show ?thesis using card_length [of rs] by linarith
qed

lemma batch_rows_Nil_iff:
  assumes "any_order ord"
  shows "batch_rows ord rs = [] \<longleftrightarrow> rs = []"
proof
  assume e: "batch_rows ord rs = []"
  then have none: "last_write rs (GlobalUID r) \<noteq> Some r" for r
    using batch_rows_set [OF assms, of rs] by auto
  show "rs = []"
  proof (rule ccontr)
    assume "rs \<noteq> []"
    then have "last_write rs (GlobalUID (hd rs)) \<noteq> None" by (simp add: last_write_None)
    then show False using none by (metis last_write_Some option.exhaust)
  qed
next
  assume "rs = []"
  moreover have "ord [] = []" using assms by (metis any_order_def mset_zero_iff mset.simps(1))
  ultimately show "batch_rows ord rs = []" by (simp add: batch_rows_def)
qed

text \<open>The one call a synchronisation makes, and what it does with the answer.\<close>

lemma sync_eq:
  assumes "any_order ord" "\<forall>r \<in> set (buffer w). timed r" "buffer w \<noteq> []"
  shows "sync exec ord w d m =
    (let rows = batch_rows ord (buffer w);
         (d, err) = exec d (insert_sql (columns w) (length rows)) (concat (map row_values rows))
     in Ok (d, if err \<noteq> None then IncDBInsertFailure m ''error''
               else AddDBInsertRows m (int (length (buffer w)))))"
proof -
  let ?rows = "batch_rows ord (buffer w)"
  have timed: "\<forall>r \<in> set ?rows. timed r" using assms(1,2) batch_rows_subset by blast
  have ne: "concat (map row_values ?rows) \<noteq> []"
    using batch_rows_Nil_iff [OF assms(1), of "buffer w"] assms(3) concat_rows_Nil [of ?rows]
    by metis
  have loop: "sync_rows_loop (columns w) ?rows True (insert_header (columns w)) [] =
      Ok (insert_header (columns w) @
          strings_Join (map (\<lambda>i. row_text (placeholders (15 * i) (length (columns w))))
            [0..<length ?rows]) '', '', concat (map row_values ?rows))"
    using sync_rows_loop_eq [OF timed] by simp
  show ?thesis
    unfolding sync_def Let_def
    using ne by (simp only: batch_rows_def [symmetric] loop bind_outcome.simps prod.case)
       (auto simp: insert_sql_def split: prod.splits)
qed

text \<open>
  A database that records the calls and answers as it likes; the calls of a batch; the records a
  worker takes from its channel before it stops.
\<close>

definition logging ::
  "((string \<times> sqlval list) list \<Rightarrow> goerror option) \<Rightarrow>
     (string \<times> sqlval list) list \<Rightarrow> string \<Rightarrow> sqlval list \<Rightarrow>
     (string \<times> sqlval list) list \<times> goerror option" where
  "logging res log sql vals = (log @ [(sql, vals)], res log)"

definition batch_call ::
  "string list \<Rightarrow> ((string, InsertRecord) gomap \<Rightarrow> (string, InsertRecord) gomap) \<Rightarrow>
     InsertRecord list \<Rightarrow> string \<times> sqlval list" where
  "batch_call cols ord b =
     (insert_sql cols (length (batch_rows ord b)), concat (map row_values (batch_rows ord b)))"

definition batch_calls ::
  "string list \<Rightarrow> (nat \<Rightarrow> (string, InsertRecord) gomap \<Rightarrow> (string, InsertRecord) gomap) \<Rightarrow>
     InsertRecord list list \<Rightarrow> (string \<times> sqlval list) list" where
  "batch_calls cols ord bs = map (\<lambda>(i, b). batch_call cols (ord i) b) (enumerate 0 bs)"

lemma batch_calls_simps [simp]:
  "batch_calls cols ord [] = []"
  "batch_calls cols ord (bs @ [b]) = batch_calls cols ord bs @ [batch_call cols (ord (length bs)) b]"
  by (simp_all add: batch_calls_def enumerate_append_eq)

fun received :: "batch_event list \<Rightarrow> InsertRecord list" where
  "received [] = []"
| "received (Recv r # es) = r # received es"
| "received (Tick # es) = received es"
| "received (Stop # es) = []"

lemma flush_state_logging:
  assumes "\<forall>n. any_order (ord n)" "\<forall>r \<in> set (buffer (worker s)). timed r" "buffer (worker s) \<noteq> []"
  shows "\<exists>m. flush_state (logging res) ord dur s =
           Ok (s\<lparr>worker := (worker s)\<lparr>buffer := []\<rparr>,
                 db := db s @ [batch_call (columns (worker s)) (ord (flushes s)) (buffer (worker s))],
                 bmetrics := m, flushes := Suc (flushes s)\<rparr>)"
  using assms by (auto simp: flush_state_def flush_def sync_eq logging_def batch_call_def Let_def)

text \<open>The invariant of the loop, for a state in which the batches \<open>bs\<close> have been sent.\<close>

definition batch_ok ::
  "(nat \<Rightarrow> (string, InsertRecord) gomap \<Rightarrow> (string, InsertRecord) gomap) \<Rightarrow> Worker \<Rightarrow>
     InsertRecord list \<Rightarrow> InsertRecord list list \<Rightarrow> (string \<times> sqlval list) list batch_state \<Rightarrow> bool" where
  "batch_ok ord w0 recs bs s \<longleftrightarrow>
     maxBatch (worker s) = maxBatch w0 \<and> columns (worker s) = columns w0 \<and>
     db s = batch_calls (columns w0) ord bs \<and> flushes s = length bs \<and>
     concat bs @ buffer (worker s) = recs \<and>
     (\<forall>b \<in> set bs. b \<noteq> [] \<and> int (length b) \<le> maxBatch w0) \<and>
     int (length (buffer (worker s))) < maxBatch w0 \<and>
     (stopped s \<longrightarrow> buffer (worker s) = [])"

lemma batch_ok_flush:
  assumes "\<forall>n. any_order (ord n)" "\<forall>r \<in> set recs. timed r" "0 < maxBatch w0"
    and "maxBatch (worker s) = maxBatch w0" "columns (worker s) = columns w0"
    and "db s = batch_calls (columns w0) ord bs \<and> flushes s = length bs" "concat bs @ buffer (worker s) = recs"
    and "\<forall>b \<in> set bs. b \<noteq> [] \<and> int (length b) \<le> maxBatch w0"
    and "int (length (buffer (worker s))) \<le> maxBatch w0" "buffer (worker s) \<noteq> []"
  shows "\<exists>s'. flush_state (logging res) ord dur s = Ok s' \<and>
           batch_ok ord w0 recs (bs @ [buffer (worker s)]) s' \<and> stopped s' = stopped s"
proof -
  have "\<forall>r \<in> set (buffer (worker s)). timed r" using assms(2,7) by auto
  with flush_state_logging [of ord s res dur] assms show ?thesis
    by (auto simp: batch_ok_def)
qed

lemma batch_step_ok:
  assumes "\<forall>n. any_order (ord n)" "0 < maxBatch w0" "batch_ok ord w0 recs bs s" "\<not> stopped s"
    and "\<forall>r \<in> set recs. timed r" and "\<forall>r. e = Recv r \<longrightarrow> timed r"
  shows "\<exists>s' bs'. batch_step (logging res) ord dur s e = Ok s' \<and>
           batch_ok ord w0 (case e of Recv r \<Rightarrow> recs @ [r] | _ \<Rightarrow> recs) bs' s' \<and>
           (stopped s' \<longleftrightarrow> e = Stop)"
proof -
  note inv = assms(3)[unfolded batch_ok_def]
  have fl: "\<exists>s'. flush_state (logging res) ord dur s = Ok s' \<and>
      batch_ok ord w0 recs (bs @ [buffer (worker s)]) s' \<and> stopped s' = stopped s"
    if "buffer (worker s) \<noteq> []"
    using inv that by (intro batch_ok_flush [OF assms(1,5,2)]) auto
  show ?thesis
  proof (cases e)
    case (Recv r)
    let ?s = "s\<lparr>worker := (worker s)\<lparr>buffer := buffer (worker s) @ [r]\<rparr>\<rparr>"
    show ?thesis
    proof (cases "int (length (buffer (worker ?s))) \<ge> maxBatch (worker ?s)")
      case True
      have "\<exists>s'. flush_state (logging res) ord dur ?s = Ok s' \<and>
          batch_ok ord w0 (recs @ [r]) (bs @ [buffer (worker ?s)]) s' \<and> stopped s' = stopped ?s"
        using inv assms(5,6) Recv by (intro batch_ok_flush [OF assms(1) _ assms(2)]) auto
      with True Recv assms(4) show ?thesis by auto
    next
      case False
      then have "batch_ok ord w0 (recs @ [r]) bs ?s" using inv assms(4) by (auto simp: batch_ok_def)
      with False Recv assms(4) show ?thesis by auto
    qed
  next
    case Tick
    then show ?thesis using fl assms(3,4) by auto
  next
    case Stop
    show ?thesis
    proof (cases "buffer (worker s) = []")
      case True
      with Stop inv show ?thesis by (auto simp: batch_ok_def)
    next
      case False
      with fl obtain s' where "flush_state (logging res) ord dur s = Ok s'"
        "batch_ok ord w0 recs (bs @ [buffer (worker s)]) s'" "buffer (worker s') = []"
        using flush_state_logging [OF assms(1), of s res dur] inv assms(5) by fastforce
      with False Stop show ?thesis
        by (intro exI [of _ "s'\<lparr>stopped := True\<rparr>"] exI [of _ "bs @ [buffer (worker s)]"])
           (auto simp: batch_ok_def)
    qed
  qed
qed

lemma batch_run_ok:
  assumes "\<forall>n. any_order (ord n)" "0 < maxBatch w0" "batch_ok ord w0 recs bs s" "\<not> stopped s"
    and "\<forall>r \<in> set recs. timed r" and "\<forall>r. Recv r \<in> set evs \<longrightarrow> timed r"
  shows "\<exists>s' bs'. batch_run (logging res) ord dur s evs = Ok s' \<and>
           batch_ok ord w0 (recs @ received evs) bs' s' \<and> (stopped s' \<longleftrightarrow> Stop \<in> set evs)"
  using assms(3-)
proof (induction evs arbitrary: recs bs s)
  case Nil
  then show ?case by auto
next
  case (Cons e evs)
  have "\<forall>r. e = Recv r \<longrightarrow> timed r" using Cons.prems(4) by auto
  from batch_step_ok [OF assms(1,2) Cons.prems(1-3) this, of res dur]
  obtain s1 bs1 where s1: "batch_step (logging res) ord dur s e = Ok s1"
      "batch_ok ord w0 (case e of Recv r \<Rightarrow> recs @ [r] | _ \<Rightarrow> recs) bs1 s1"
      "stopped s1 \<longleftrightarrow> e = Stop" by blast
  show ?case
  proof (cases "e = Stop")
    case True
    then have "batch_run (logging res) ord dur s1 evs = Ok s1" using s1(3) by (cases evs) auto
    with True s1 Cons.prems(2) show ?thesis by auto
  next
    case False
    have "\<forall>r \<in> set (case e of Recv r \<Rightarrow> recs @ [r] | _ \<Rightarrow> recs). timed r"
      using Cons.prems(3,4) by (auto split: batch_event.splits)
    from Cons.IH [OF s1(2) _ this] s1(3) False Cons.prems(4)
    obtain s' bs' where "batch_run (logging res) ord dur s1 evs = Ok s'"
      "batch_ok ord w0 ((case e of Recv r \<Rightarrow> recs @ [r] | _ \<Rightarrow> recs) @ received evs) bs' s'"
      "stopped s' \<longleftrightarrow> Stop \<in> set evs" by auto
    moreover have "(case e of Recv r \<Rightarrow> recs @ [r] | _ \<Rightarrow> recs) @ received evs =
        recs @ received (e # evs)"
      using False by (cases e) auto
    ultimately show ?thesis using s1(1) Cons.prems(2) False by auto
  qed
qed

text \<open>With any database, records with both times never make the worker panic.\<close>

lemma flush_state_total:
  assumes "\<forall>n. any_order (ord n)" "\<forall>r \<in> set (buffer (worker s)). timed r"
  shows "\<exists>s'. flush_state exec ord dur s = Ok s' \<and> buffer (worker s') = [] \<and> stopped s' = stopped s"
proof (cases "buffer (worker s) = []")
  case True
  then show ?thesis by (simp add: flush_state_def flush_def)
next
  case False
  then show ?thesis
    using assms by (simp add: flush_state_def flush_def sync_eq Let_def split: prod.split)
qed

lemma batch_step_total:
  assumes "\<forall>n. any_order (ord n)" "\<forall>r \<in> set (buffer (worker s)). timed r" "\<forall>r. e = Recv r \<longrightarrow> timed r"
  shows "\<exists>s'. batch_step exec ord dur s e = Ok s' \<and> (\<forall>r \<in> set (buffer (worker s')). timed r)"
proof (cases e)
  case (Recv r)
  let ?s = "s\<lparr>worker := (worker s)\<lparr>buffer := buffer (worker s) @ [r]\<rparr>\<rparr>"
  have "\<forall>r \<in> set (buffer (worker ?s)). timed r" using assms(2,3) Recv by auto
  then show ?thesis using flush_state_total [OF assms(1), of ?s exec dur] Recv by (auto simp: Let_def)
next
  case Tick
  then show ?thesis using flush_state_total [OF assms(1,2), of exec dur] assms(2) by auto
next
  case Stop
  obtain s' where "flush_state exec ord dur s = Ok s'" "buffer (worker s') = []"
    using flush_state_total [OF assms(1,2)] by blast
  then show ?thesis using Stop by (cases "buffer (worker s) = []") auto
qed

lemma batch_run_total:
  assumes "\<forall>n. any_order (ord n)" "\<forall>r \<in> set (buffer (worker s)). timed r" "\<forall>r. Recv r \<in> set evs \<longrightarrow> timed r"
  shows "\<exists>s'. batch_run exec ord dur s evs = Ok s'"
  using assms(2,3)
proof (induction evs arbitrary: s)
  case Nil
  then show ?case by simp
next
  case (Cons e evs)
  have "\<forall>r. e = Recv r \<longrightarrow> timed r" using Cons.prems(2) by auto
  from batch_step_total [OF assms(1) Cons.prems(1) this, of exec dur]
  obtain s1 where "batch_step exec ord dur s e = Ok s1" "\<forall>r \<in> set (buffer (worker s1)). timed r" by blast
  then show ?case using Cons by auto
qed

definition batch_init :: "Worker \<Rightarrow> Metrics option \<Rightarrow> (string \<times> sqlval list) list batch_state" where
  "batch_init w m = \<lparr>worker = w, db = [], bmetrics = m, stopped = False, flushes = 0\<rparr>"

lemma placeholders_concat:
  "concat (map (\<lambda>i. placeholders (15 * i) 15) [0..<n]) =
     map (\<lambda>k. ''$'' @ itoa k) [1..<Suc (15 * n)]"
proof (induction n)
  case 0
  then show ?case by simp
next
  case (Suc n)
  have "placeholders (15 * n) 15 = map (\<lambda>k. ''$'' @ itoa k) [Suc (15 * n)..<Suc (15 * n) + 15]"
    by (rule nth_equalityI) (simp_all add: placeholders_def del: upt_Suc)
  then show ?case
    using Suc upt_add_eq_append [of 1 "Suc (15 * n)" 15] upt_Suc_append [of 0 n]
    by (simp add: algebra_simps del: upt_Suc)
qed

subsection \<open>Sample records\<close>

text \<open>Used by the witnesses below.\<close>

definition sample_record :: "string \<Rightarrow> string \<Rightarrow> InsertRecord" where
  "sample_record u raw =
     \<lparr>CreatedAt = Some \<lparr>unixNano = 1, location = ''Local''\<rparr>,
      UpdatedAt = Some \<lparr>unixNano = 2, location = ''Local''\<rparr>, DeletedAt = None,
      ClusterName = ''c'', UID = u, GlobalUID = ''c:'' @ u, RecNamespace = ''demo'',
      ResourceGroup = ''g'', ResourceVersion = ''v1'', ResourceKind = ''K'', ResourceName = ''n'',
      ResourcePlural = ''ks'', CompositionID = u, Raw = raw, StatusRaw = None\<rparr>"

definition sample_worker :: "InsertRecord list \<Rightarrow> Worker" where
  "sample_worker rs = \<lparr>buffer = rs, maxBatch = 2, flushEvery = 5 * 10 ^ 9, columns = replicate 15 ''c''\<rparr>"

lemma sample_record_simps [simp]:
  "timed (sample_record u raw)" "GlobalUID (sample_record u raw) = ''c:'' @ u"
  by (simp_all add: sample_record_def timed_def)

lemma any_order_id [simp]: "any_order (\<lambda>m. m)"
  by (simp add: any_order_def)

subsection \<open>Properties\<close>

text \<open>
  C11: No record is lost, duplicated or reordered between the channel and the database. For a worker
  with an empty buffer and a positive batch size, whatever arrives and however the database answers,
  the records taken from the channel are, in order, those of the batches sent so far, one statement
  each, followed by the buffer; every batch sent is non-empty and no longer than the batch size; the buffer always stays
  below the batch size; and once the worker has stopped the buffer is empty.
\<close>

theorem batch_run_no_loss:
  assumes "\<forall>n. any_order (ord n)" "buffer w = []" "0 < maxBatch w" "\<forall>r. Recv r \<in> set evs \<longrightarrow> timed r"
  shows "\<exists>s bs. batch_run (logging res) ord dur (batch_init w m) evs = Ok s \<and>
           db s = batch_calls (columns w) ord bs \<and>
           concat bs @ buffer (worker s) = received evs \<and>
           (\<forall>b \<in> set bs. b \<noteq> [] \<and> int (length b) \<le> maxBatch w) \<and>
           int (length (buffer (worker s))) < maxBatch w \<and>
           (Stop \<in> set evs \<longrightarrow> buffer (worker s) = [])"
proof -
  have "batch_ok ord w [] [] (batch_init w m)"
    using assms(2,3) by (simp add: batch_ok_def batch_init_def)
  from batch_run_ok [OF assms(1,3) this, of evs res dur] assms(4)
  obtain s bs where "batch_run (logging res) ord dur (batch_init w m) evs = Ok s"
    "batch_ok ord w (received evs) bs s" "stopped s \<longleftrightarrow> Stop \<in> set evs"
    by (auto simp: batch_init_def)
  then show ?thesis unfolding batch_ok_def by blast
qed

theorem batch_run_no_loss_witness:
  "\<exists>s bs. batch_run (logging (\<lambda>_. None)) (\<lambda>_ m. m) (\<lambda>_. 0) (batch_init (sample_worker []) None)
       [Recv (sample_record ''1'' ''a''), Tick, Recv (sample_record ''2'' ''b''), Stop] = Ok s \<and>
     concat bs @ buffer (worker s) = [sample_record ''1'' ''a'', sample_record ''2'' ''b''] \<and>
     buffer (worker s) = []"
  using batch_run_no_loss
    [of "\<lambda>_ m. m" "sample_worker []"
        "[Recv (sample_record ''1'' ''a''), Tick, Recv (sample_record ''2'' ''b''), Stop]"
        "\<lambda>_. None" "\<lambda>_. 0" None]
  by (auto simp: sample_worker_def)

text \<open>
  C12: The statement of a flush. For a worker with the fifteen columns, one call is made for a
  non-empty buffer; its text is the insert header, one parenthesised row of placeholders per
  record, and the conflict clause; the placeholders are exactly the dollar numbers from 1 to the
  number of arguments, in order; and the arguments are the values of the rows one after another.
\<close>

theorem sync_statement:
  assumes "any_order ord" "\<forall>r \<in> set (buffer w). timed r" "buffer w \<noteq> []" "length (columns w) = 15"
  shows "\<exists>rows sql vals m'.
           sync (logging res) ord w log m = Ok (log @ [(sql, vals)], m') \<and>
           sql = insert_header (columns w) @ strings_Join (map row_text rows) '', '' @ conflict_clause \<and>
           concat rows = map (\<lambda>k. ''$'' @ itoa k) [1..<Suc (length vals)] \<and>
           (\<forall>ps \<in> set rows. length ps = length (columns w)) \<and>
           vals = concat (map row_values (batch_rows ord (buffer w))) \<and>
           length rows = length (batch_rows ord (buffer w))"
proof -
  let ?recs = "batch_rows ord (buffer w)"
  let ?rows = "map (\<lambda>i. placeholders (15 * i) 15) [0..<length ?recs]"
  have "\<exists>m'. sync (logging res) ord w log m =
      Ok (log @ [(insert_sql (columns w) (length ?recs), concat (map row_values ?recs))], m')"
    using assms(1-3) by (simp add: sync_eq logging_def Let_def)
  moreover have "insert_sql (columns w) (length ?recs) =
      insert_header (columns w) @ strings_Join (map row_text ?rows) '', '' @ conflict_clause"
    by (simp add: insert_sql_def assms(4) comp_def)
  moreover have "concat ?rows =
      map (\<lambda>k. ''$'' @ itoa k) [1..<Suc (length (concat (map row_values ?recs)))]"
    unfolding length_concat_rows by (rule placeholders_concat)
  moreover have "\<forall>ps \<in> set ?rows. length ps = length (columns w)"
    by (auto simp: placeholders_def assms(4))
  ultimately show ?thesis by (metis length_map length_upt minus_nat.diff_0)
qed

theorem sync_statement_witness:
  "\<exists>sql vals m'.
     sync (logging (\<lambda>_. None)) (\<lambda>m. m) (sample_worker [sample_record ''1'' ''a'']) [] None =
       Ok ([(sql, vals)], m') \<and>
     vals = row_values (sample_record ''1'' ''a'')"
  using sync_statement
    [of "\<lambda>m. m" "sample_worker [sample_record ''1'' ''a'']" "\<lambda>_. None" "[]" None]
  by (auto simp: sample_worker_def batch_rows_def)

text \<open>
  C17: Within one batch the last write for a global identifier wins: the rows of the statement have
  pairwise different global identifiers, as \<^verbatim>\<open>ON CONFLICT DO UPDATE\<close> requires, every identifier of the
  batch has a row, and that row is the last record of the batch with the identifier.
\<close>

theorem batch_rows_last_write:
  assumes "any_order ord"
  shows "distinct (map GlobalUID (batch_rows ord rs)) \<and>
         GlobalUID ` set (batch_rows ord rs) = GlobalUID ` set rs \<and>
         (\<forall>r \<in> set (batch_rows ord rs). last_write rs (GlobalUID r) = Some r)"
proof -
  have "u \<in> GlobalUID ` set (batch_rows ord rs)" if "u \<in> GlobalUID ` set rs" for u
  proof -
    from that obtain r where "last_write rs u = Some r"
      using last_write_None by (metis option.exhaust)
    then show ?thesis using last_write_Some [of rs u r] batch_rows_set [OF assms, of rs] by auto
  qed
  then show ?thesis
    using batch_rows_distinct [OF assms] batch_rows_subset [OF assms] batch_rows_set [OF assms]
    by blast
qed

theorem batch_rows_last_write_witness:
  "last_write [sample_record ''1'' ''a'', sample_record ''2'' ''b'', sample_record ''1'' ''c'']
     ''c:1'' = Some (sample_record ''1'' ''c'') \<and>
   distinct (map GlobalUID (batch_rows (\<lambda>m. m)
     [sample_record ''1'' ''a'', sample_record ''2'' ''b'', sample_record ''1'' ''c'']))"
  using batch_rows_last_write
    [of "\<lambda>m. m" "[sample_record ''1'' ''a'', sample_record ''2'' ''b'', sample_record ''1'' ''c'']"]
  by (simp add: last_write_def)

text \<open>
  The embedded column list has fifteen columns and they are, in order, those of the values of a
  row: \<^verbatim>\<open>NewWorker\<close> succeeds and yields exactly these columns. (The file's comment line stays glued to
  the first column name; in SQL it is a comment up to the end of its line.)
\<close>

theorem NewWorker_columns:
  assumes "0 \<le> mb"
  shows "NewWorker batch_sql_fs \<lparr>MaxBatch = mb, FlushEvery = fe\<rparr> =
    Ok \<lparr>buffer = [], maxBatch = mb, flushEvery = fe,
        columns = [''-- Ordered list of columns used by COPY'' @ [CHR 0x0A] @ ''created_at'',
          ''updated_at'', ''deleted_at'', ''cluster_name'', ''uid'', ''global_uid'', ''namespace'',
          ''resource_group'', ''resource_version'', ''resource_kind'', ''resource_plural'',
          ''resource_name'', ''composition_id'', ''raw'', ''status_raw'']\<rparr>"
proof -
  have "bind_outcome (MustLoadSQL batch_sql_fs ''cols.sql'') (\<lambda>cols. Ok (parseColumns cols)) =
    Ok [''-- Ordered list of columns used by COPY'' @ [CHR 0x0A] @ ''created_at'',
          ''updated_at'', ''deleted_at'', ''cluster_name'', ''uid'', ''global_uid'', ''namespace'',
          ''resource_group'', ''resource_version'', ''resource_kind'', ''resource_plural'',
          ''resource_name'', ''composition_id'', ''raw'', ''status_raw'']"
    by code_simp
  then show ?thesis using assms
    by (cases "MustLoadSQL batch_sql_fs ''cols.sql''") (auto simp: NewWorker_def)
qed

theorem NewWorker_columns_witness:
  "\<exists>w. NewWorker batch_sql_fs \<lparr>MaxBatch = 50, FlushEvery = 5 * 10 ^ 9\<rparr> = Ok w \<and> length (columns w) = 15 \<and> maxBatch w = 50"
  using NewWorker_columns [of 50] by simp

text \<open>
  A flush with at most 4369 buffered records, hence every flush of a worker with the batch size
  of 50 that the program uses, stays within the 65535 parameters of a PostgreSQL statement.
\<close>

theorem sync_parameter_bound:
  assumes "any_order ord" "length (buffer w) \<le> 4369"
  shows "length (concat (map row_values (batch_rows ord (buffer w)))) \<le> 65535"
  using length_batch_rows [OF assms(1), of "buffer w"] assms(2) by (simp add: length_concat_rows)

theorem sync_parameter_bound_witness:
  "length (concat (map row_values (batch_rows (\<lambda>m. m)
     (buffer (sample_worker (replicate 50 (sample_record ''1'' ''a''))))))) \<le> 65535"
  using sync_parameter_bound
    [of "\<lambda>m. m" "sample_worker (replicate 50 (sample_record ''1'' ''a''))"]
  by (simp add: sample_worker_def)

text \<open>
  C39: A failed statement loses its batch. When the database answers the one call of a flush with an
  error, \<^verbatim>\<open>flush\<close> leaves the database as that call left it, for a database of any behaviour, so that
  there is no second call; it empties the buffer and reports success to its caller; only the failure
  counter tells, the counter of inserted rows does not move. Nothing is sent again later either: the
  next tick does nothing.
\<close>

theorem flush_discards_on_error:
  assumes "any_order ord" "\<forall>r \<in> set (buffer w). timed r" "buffer w \<noteq> []"
    and "exec d (fst (batch_call (columns w) ord (buffer w))) (snd (batch_call (columns w) ord (buffer w))) =
      (d', Some e)"
  shows "\<exists>m'. flush exec ord dur w d (Some m) = Ok (w\<lparr>buffer := []\<rparr>, d', Some m') \<and>
           counter_total ''resources_ingester.db.insert.failure'' (calls m') =
             counter_total ''resources_ingester.db.insert.failure'' (calls m) + 1 \<and>
           counter_total ''resources_ingester.db.insert.rows'' (calls m') =
             counter_total ''resources_ingester.db.insert.rows'' (calls m) \<and>
           (\<forall>s ords durs. worker s = w\<lparr>buffer := []\<rparr> \<longrightarrow> batch_step exec ords durs s Tick = Ok s)"
  using assms
  by (auto simp: flush_def sync_eq batch_call_def IncDBInsertFailure_def RecordBatchFlush_def add_call_def
      counter_total_append Let_def)

theorem flush_discards_on_error_witness:
  "\<exists>m'. flush (\<lambda>d sql vals. (Suc d, Some ''down'')) (\<lambda>m. m) 0
       (sample_worker [sample_record ''1'' ''a'']) 7
       (Some \<lparr>calls = [], queueDepth = 0, recordChannelDepth = 0, goRoutines = 0,
             activeInformerKinds = 0\<rparr>) =
     Ok ((sample_worker [sample_record ''1'' ''a''])\<lparr>buffer := []\<rparr>, 8, Some m')"
  using flush_discards_on_error
    [of "\<lambda>m. m" "sample_worker [sample_record ''1'' ''a'']" "\<lambda>d sql vals. (Suc d, Some ''down'')" 7 8
        "''down''" 0 "\<lparr>calls = [], queueDepth = 0, recordChannelDepth = 0, goRoutines = 0,
             activeInformerKinds = 0\<rparr>"]
  by (auto simp: sample_worker_def)

text \<open>
  The inserted-rows counter counts buffered records, not rows: after a successful flush it has
  grown by the length of the buffer, also when the statement had fewer rows because several records
  of the batch had the same global identifier.
\<close>

theorem flush_counts_buffered:
  assumes "any_order ord" "\<forall>r \<in> set (buffer w). timed r" "buffer w \<noteq> []"
    and "\<And>d sql vals. snd (exec d sql vals) = None"
  shows "\<exists>d' m'. flush exec ord dur w d (Some m) = Ok (w\<lparr>buffer := []\<rparr>, d', Some m') \<and>
           counter_total ''resources_ingester.db.insert.rows'' (calls m') =
             counter_total ''resources_ingester.db.insert.rows'' (calls m) + int (length (buffer w))"
proof -
  let ?rows = "batch_rows ord (buffer w)"
  obtain d' where
    "exec d (insert_sql (columns w) (length ?rows)) (concat (map row_values ?rows)) = (d', None)"
    using assms(4) by (metis prod.collapse)
  with assms(1-3) show ?thesis
    by (simp add: flush_def sync_eq AddDBInsertRows_def RecordBatchFlush_def add_call_def
        counter_total_append Let_def)
qed

theorem flush_counts_buffered_witness:
  "length (batch_rows (\<lambda>m. m) [sample_record ''1'' ''a'', sample_record ''1'' ''b'']) = 1 \<and>
   (\<exists>d' m'. flush (\<lambda>d sql vals. (d, None)) (\<lambda>m. m) 0
       (sample_worker [sample_record ''1'' ''a'', sample_record ''1'' ''b'']) (7::nat)
       (Some \<lparr>calls = [], queueDepth = 0, recordChannelDepth = 0, goRoutines = 0,
             activeInformerKinds = 0\<rparr>) =
       Ok (sample_worker [], d', Some m') \<and>
     counter_total ''resources_ingester.db.insert.rows'' (calls m') = 2)"
  using flush_counts_buffered
    [of "\<lambda>m. m" "sample_worker [sample_record ''1'' ''a'', sample_record ''1'' ''b'']"
        "\<lambda>d sql vals. (d, None)" 0 7
        "\<lparr>calls = [], queueDepth = 0, recordChannelDepth = 0, goRoutines = 0,
             activeInformerKinds = 0\<rparr>"]
  by (auto simp: sample_worker_def batch_rows_def)

end
