(* ===== verification/Pipeline.thy ===== *)
theory Pipeline
  imports ChanQueueProps Batch
begin

text \<open>
  The second half of the program as \<^verbatim>\<open>main.go\<close> wires it: the job queue, whose jobs send records on the
  record channel, and the batch worker, which takes them off and writes them. The two run
  concurrently; the environment of the queue is the record channel.
\<close>

subsection \<open>The composition\<close>

text \<open>
  What running a job does to the record channel. Nothing in the program closes that channel, so that
  a job either sends or waits.
\<close>

definition record_run :: "InsertRecordJob \<Rightarrow> InsertRecord chan \<Rightarrow> InsertRecord chan option" where
  "record_run j c = (case InsertRecordJob_Job j c of Some (Ok c') \<Rightarrow> Some c' | _ \<Rightarrow> None)"

record pipeline =
  pq :: "(InsertRecordJob, InsertRecord chan) cqueue"
  pb :: "(string \<times> sqlval list) list batch_state"
  taken :: "InsertRecord list"

text \<open>
  \<open>taken\<close> is a history variable: the records the batch worker has received, in order. The queue is
  given only records with a creation and an update time, as storage makes them (\<open>record_of\<close> in
  \<^verbatim>\<open>Storage\<close>); without one the batch worker would dereference nil.
\<close>

inductive pipe_step ::
  "((string \<times> sqlval list) list \<Rightarrow> goerror option) \<Rightarrow>
     (nat \<Rightarrow> (string, InsertRecord) gomap \<Rightarrow> (string, InsertRecord) gomap) \<Rightarrow> (nat \<Rightarrow> int) \<Rightarrow>
     pipeline \<Rightarrow> pipeline \<Rightarrow> bool"
  for res :: "(string \<times> sqlval list) list \<Rightarrow> goerror option"
    and ord :: "nat \<Rightarrow> (string, InsertRecord) gomap \<Rightarrow> (string, InsertRecord) gomap"
    and dur :: "nat \<Rightarrow> int"
where
  pipe_queue: "cq_step record_run (pq s) q \<Longrightarrow> list_all (\<lambda>j. timed (Record j)) (accepted q) \<Longrightarrow>
    pipe_step res ord dur s (s\<lparr>pq := q\<rparr>)"
| pipe_recv: "\<not> stopped (pb s) \<Longrightarrow> chan_recv (env (pq s)) = Received r c \<Longrightarrow>
    batch_step (logging res) ord dur (pb s) (Recv r) = Ok b \<Longrightarrow>
    pipe_step res ord dur s (s\<lparr>pq := (pq s)\<lparr>env := c\<rparr>, pb := b, taken := taken s @ [r]\<rparr>)"
| pipe_tick: "\<not> stopped (pb s) \<Longrightarrow> batch_step (logging res) ord dur (pb s) Tick = Ok b \<Longrightarrow>
    pipe_step res ord dur s (s\<lparr>pb := b\<rparr>)"
| pipe_stop: "\<not> stopped (pb s) \<Longrightarrow> batch_step (logging res) ord dur (pb s) Stop = Ok b \<Longrightarrow>
    pipe_step res ord dur s (s\<lparr>pb := b\<rparr>)"

text \<open>
  \<^verbatim>\<open>main\<close>: a record channel of \<open>rc\<close> places (100 in the program), a batch worker on it (batch size 50),
  a running queue with \<open>cap\<close> places and \<open>n\<close> workers (1000 and 4).
\<close>

definition pipe_init ::
  "nat \<Rightarrow> nat \<Rightarrow> nat \<Rightarrow> Worker \<Rightarrow> Metrics option \<Rightarrow> pipeline \<Rightarrow> bool" where
  "pipe_init rc cap n w m s \<longleftrightarrow>
     cq_init cap n (make_chan rc) (pq s) \<and> pb s = batch_init w m \<and> taken s = []"

subsection \<open>Conservation\<close>

definition pipe_inv ::
  "nat \<Rightarrow> nat \<Rightarrow> nat \<Rightarrow> (nat \<Rightarrow> (string, InsertRecord) gomap \<Rightarrow> (string, InsertRecord) gomap) \<Rightarrow> Worker \<Rightarrow>
     pipeline \<Rightarrow> bool" where
  "pipe_inv rc cap n ord w s \<longleftrightarrow>
     cq_acct cap n (pq s) \<and> list_all (\<lambda>j. timed (Record j)) (accepted (pq s)) \<and>
     map Record (executed (wps (pq s))) = taken s @ ch_buf (env (pq s)) \<and>
     chan_ok (env (pq s)) \<and> ch_cap (env (pq s)) = rc \<and>
     (\<exists>bs. batch_ok ord w (taken s) bs (pb s))"

lemma record_run_iff:
  "record_run j c = Some c' \<longleftrightarrow> chan_send c (Record j) = Sent c'"
  by (auto simp: record_run_def InsertRecordJob_Job_def split: send_result.splits)

text \<open>Only the run of a job touches the channel, and it appends the job's record.\<close>

lemma cq_rule_env:
  assumes "cq_rule record_run q q'"
  shows "(env q' = env q \<and> executed (wps q') = executed (wps q)) \<or>
    (\<exists>j. chan_send (env q) (Record j) = Sent (env q') \<and>
       executed (wps q') = executed (wps q) @ [j])"
  using assms
proof cases
  case (cq_worker e' w')
  from cq_worker(2) show ?thesis
    by cases (use cq_worker(1) in \<open>auto simp: record_run_iff\<close>)
qed (auto simp: handover_def worker_Stop_def cq_panic_def)

lemma cq_acct_env [simp]: "cq_acct cap n (q\<lparr>env := c\<rparr>) = cq_acct cap n q"
  by (simp add: cq_acct_def waiting_def)

lemma executed_timed:
  assumes "cq_acct cap n q" and "list_all (\<lambda>j. timed (Record j)) (accepted q)"
  shows "\<forall>r \<in> set (map Record (executed (wps q))). timed r"
proof -
  have "mset (executed (wps q)) \<subseteq># mset (accepted q)"
    using assms(1) by (auto simp: cq_acct_def wjobs_def)
  then have "set (executed (wps q)) \<subseteq> set (accepted q)" by (metis set_mset_mono set_mset_mset)
  then show ?thesis using assms(2) by (auto simp: list_all_iff)
qed

lemma pipe_inv_init:
  assumes "buffer w = []" and "0 < maxBatch w" and "pipe_init rc cap n w m s"
  shows "pipe_inv rc cap n ord w s"
proof -
  have "batch_ok ord w [] [] (batch_init w m)"
    using assms(1,2) by (simp add: batch_ok_def batch_init_def)
  moreover have "cq_acct cap n (pq s)" using assms(3) cq_acct_init by (auto simp: pipe_init_def)
  moreover have "accepted (pq s) = []" "executed (wps (pq s)) = []" "env (pq s) = make_chan rc"
    using assms(3) by (simp_all add: pipe_init_def cq_init_eq NewQueue_def)
  ultimately show ?thesis
    using assms(3) by (auto simp: pipe_inv_def pipe_init_def make_chan_def chan_ok_def)
qed

lemma pipe_inv_step:
  assumes "\<forall>n. any_order (ord n)" and "0 < maxBatch w"
    and inv: "pipe_inv rc cap n ord w s" and "pipe_step res ord dur s s'"
  shows "pipe_inv rc cap n ord w s'"
proof -
  obtain bs where bs: "batch_ok ord w (taken s) bs (pb s)" using inv by (auto simp: pipe_inv_def)
  have ex: "map Record (executed (wps (pq s))) = taken s @ ch_buf (env (pq s))"
    using inv by (simp add: pipe_inv_def)
  have "\<forall>r \<in> set (map Record (executed (wps (pq s)))). timed r"
    using inv by (intro executed_timed) (auto simp: pipe_inv_def)
  then have timed: "\<forall>r \<in> set (taken s) \<union> set (ch_buf (env (pq s))). timed r"
    unfolding ex by simp
  then have step: "\<exists>b' bs'. batch_step (logging res) ord dur (pb s) e = Ok b' \<and>
      batch_ok ord w (case e of Recv r \<Rightarrow> taken s @ [r] | _ \<Rightarrow> taken s) bs' b'"
    if "\<not> stopped (pb s)" "\<forall>r. e = Recv r \<longrightarrow> r \<in> set (ch_buf (env (pq s)))" for e
    using batch_step_ok [OF assms(1,2) bs that(1), of e res dur] that(2) by blast
  from assms(4) show ?thesis
  proof cases
    case (pipe_queue q)
    then have r: "cq_rule record_run (pq s) q" by (simp add: cq_step_def)
    then have "cq_acct cap n q" using inv cq_acct_rule by (auto simp: pipe_inv_def)
    then show ?thesis using cq_rule_env [OF r] pipe_queue inv
      by (auto simp: pipe_inv_def chan_send_Sent_iff chan_ok_def)
  next
    case (pipe_recv r c b)
    then show ?thesis using step [of "Recv r"] inv
      by (auto simp: pipe_inv_def chan_recv_Received_ex chan_ok_def)
  next
    case (pipe_tick b)
    then show ?thesis using step [of Tick] inv by (auto simp: pipe_inv_def)
  next
    case (pipe_stop b)
    then show ?thesis using step [of Stop] inv by (auto simp: pipe_inv_def)
  qed
qed

lemma pipe_reach_inv:
  assumes "\<forall>n. any_order (ord n)" and "buffer w = []" and "0 < maxBatch w"
    and "reach (pipe_init rc cap n w m) (pipe_step res ord dur) s"
  shows "pipe_inv rc cap n ord w s"
  using assms(4)
  by (induction rule: reach.induct) (use assms(1-3) in \<open>auto intro: pipe_inv_init pipe_inv_step\<close>)

subsection \<open>Shutdown\<close>

text \<open>
  The batch worker has stopped, the record channel is full, and some queue worker has a job in hand.
\<close>

definition hung :: "nat \<Rightarrow> pipeline \<Rightarrow> bool" where
  "hung i s \<longleftrightarrow>
     stopped (pb s) \<and> length (ch_buf (env (pq s))) = ch_cap (env (pq s)) \<and>
     i < length (wpcs (wps (pq s))) \<and> (\<exists>j. wpcs (wps (pq s)) ! i = WRun j)"

lemma worker_step_full:
  assumes "worker_step record_run (e, w) (e', w')" and "length (ch_buf e) = ch_cap e"
    and "i < length (wpcs w)" and "wpcs w ! i = WRun j"
  shows "e' = e \<and> length (wpcs w') = length (wpcs w) \<and> wpcs w' ! i = WRun j"
  using assms(1)
  by cases (use assms(2-4) in \<open>auto simp: record_run_iff chan_send_Sent_iff nth_list_update\<close>)

lemma cq_rule_full:
  assumes "cq_rule record_run q q'" and "length (ch_buf (env q)) = ch_cap (env q)"
    and "i < length (wpcs (wps q))" and "wpcs (wps q) ! i = WRun j"
  shows "env q' = env q \<and> length (wpcs (wps q')) = length (wpcs (wps q)) \<and> wpcs (wps q') ! i = WRun j"
  using assms(1)
proof cases
  case (cq_worker e' w')
  then show ?thesis using worker_step_full [OF cq_worker(2) assms(2-4)] by simp
qed (use assms(3,4) in \<open>auto simp: handover_def can_receive_def worker_Stop_def cq_panic_def
      nth_list_update\<close>)

lemma hung_step:
  assumes "hung i s" and "pipe_step res ord dur s s'"
  shows "hung i s'"
  using assms(2)
proof cases
  case (pipe_queue q)
  then have "cq_rule record_run (pq s) q" by (simp add: cq_step_def)
  then show ?thesis using assms(1) pipe_queue(1) cq_rule_full by (fastforce simp: hung_def)
qed (use assms(1) in \<open>auto simp: hung_def\<close>)

lemma hung_forever: "(pipe_step res ord dur)\<^sup>*\<^sup>* s s' \<Longrightarrow> hung i s \<Longrightarrow> hung i s'"
  by (induction rule: rtranclp_induct) (auto intro: hung_step)

lemma reach_rtranclp:
  "step\<^sup>*\<^sup>* s s' \<Longrightarrow> reach I step s \<Longrightarrow> reach I step s'"
  by (induction rule: rtranclp_induct) (auto intro: reach_step)

lemma hung_wg:
  assumes "pipe_inv rc cap n ord w s" and "hung i s"
  shows "1 \<le> wg (wps (pq s))"
  using assms busy_pos [of cap n "pq s" i]
  by (auto simp: pipe_inv_def hung_def cq_acct_def sized_def)

lemma wait_holds:
  assumes "pipe_step res ord dur s s'" and "1 \<le> wg (wps (pq s))" and "\<not> past_wait (term_pc (pq s))"
  shows "\<not> past_wait (term_pc (pq s'))"
  using assms(1)
proof cases
  case (pipe_queue q)
  then have "cq_rule record_run (pq s) q" by (simp add: cq_step_def)
  then have "\<not> past_wait (term_pc q)" by cases (use assms(2,3) in \<open>auto simp: cq_panic_def\<close>)
  then show ?thesis using pipe_queue by simp
qed (use assms(3) in auto)

lemma hung_wait_forever:
  assumes "\<forall>n. any_order (ord n)" and "buffer w = []" and "0 < maxBatch w"
    and "reach (pipe_init rc cap n w m) (pipe_step res ord dur) s" and "hung i s"
    and "\<not> past_wait (term_pc (pq s))" and "(pipe_step res ord dur)\<^sup>*\<^sup>* s s'"
  shows "hung i s' \<and> 1 \<le> wg (wps (pq s')) \<and> \<not> past_wait (term_pc (pq s'))"
  using assms(7)
proof (induction rule: rtranclp_induct)
  case base
  then show ?case using assms(5,6) hung_wg [OF pipe_reach_inv [OF assms(1-4)]] by simp
next
  case (step t u)
  have "reach (pipe_init rc cap n w m) (pipe_step res ord dur) u"
    using reach_step reach_rtranclp [OF step(1) assms(4)] step(2) .
  then show ?case
    using step hung_step [of i t res ord dur u] wait_holds [OF step(2)]
      hung_wg [OF pipe_reach_inv [OF assms(1-3)], of rc cap n m res dur u i] by auto
qed

subsection \<open>Schedules\<close>

definition jobs_timed :: "(InsertRecordJob, InsertRecord chan) cqueue \<Rightarrow> bool" where
  "jobs_timed q \<longleftrightarrow> list_all (\<lambda>j. timed (Record j)) (accepted q)"

lemma pipe_schedule:
  assumes "reach I (pipe_step res ord dur) s" and "cq_exec_all record_run jobs_timed as (pq s) = Some q"
  shows "reach I (pipe_step res ord dur) (s\<lparr>pq := q\<rparr>)"
  using assms
proof (induction "as" arbitrary: s)
  case Nil
  then have "s\<lparr>pq := q\<rparr> = s" by (cases s) auto
  then show ?case using Nil(1) by metis
next
  case (Cons a "as")
  from Cons.prems(2) obtain p where p: "\<not> panicked (wps (pq s))" "cq_exec record_run a (pq s) = Some p"
    "jobs_timed p" "cq_exec_all record_run jobs_timed as p = Some q"
    by (auto split: if_splits option.splits)
  then have "cq_step record_run (pq s) p" by (simp add: cq_step_def cq_exec_sound)
  then have "pipe_step res ord dur s (s\<lparr>pq := p\<rparr>)" using p(3) by (auto simp: jobs_timed_def intro: pipe_queue)
  from Cons.IH [OF reach_step [OF Cons.prems(1) this]] p(4) show ?case by simp
qed

definition sample_job :: "string \<Rightarrow> InsertRecordJob" where
  "sample_job u = \<lparr>Record = sample_record u ''{}''\<rparr>"

definition sample_pipe_start :: pipeline where
  "sample_pipe_start =
     \<lparr>pq = cq_start 2 2 (make_chan 1), pb = batch_init (sample_worker []) None, taken = []\<rparr>"

text \<open>Two jobs are pushed to two workers; the first fills the channel and the second has to wait.\<close>

lemma sample_pipe_run:
  "\<exists>q. cq_exec_all record_run jobs_timed
     [APushCheck (sample_job ''1''), APushCheck (sample_job ''2''), APushAdd 0, APushAdd 1,
      APushSend 0, APushSend 0, ADispRecv, ADispWorker, ADispSend, ADispRecv, ADispWorker, ADispSend,
      AWorker (ARun 0)] (pq sample_pipe_start) = Some q \<and>
     accepted q = [sample_job ''1'', sample_job ''2''] \<and>
     length (ch_buf (env q)) = 1 \<and> ch_cap (env q) = 1 \<and> length (wpcs (wps q)) = 2 \<and>
     wpcs (wps q) ! 1 = WRun (sample_job ''2'') \<and> term_pc q = TNone"
  by (simp add: schedule_simps upt_rec sample_pipe_start_def jobs_timed_def sample_job_def
      record_run_def InsertRecordJob_Job_def)

lemma sample_pipe_reach:
  "\<exists>s. reach (pipe_init 1 2 2 (sample_worker []) None) (pipe_step (\<lambda>_. None) (\<lambda>_ m. m) (\<lambda>_. 0)) s \<and>
     accepted (pq s) = [sample_job ''1'', sample_job ''2''] \<and> hung 1 s \<and> term_pc (pq s) = TNone"
proof -
  let ?R = "reach (pipe_init 1 2 2 (sample_worker []) None) (pipe_step (\<lambda>_. None) (\<lambda>_ m. m) (\<lambda>_. 0))"
  have "?R sample_pipe_start"
    by (rule reach_init) (simp add: pipe_init_def sample_pipe_start_def cq_start_init)
  then obtain q where r: "?R (sample_pipe_start\<lparr>pq := q\<rparr>)"
    and q: "accepted q = [sample_job ''1'', sample_job ''2'']" "length (ch_buf (env q)) = 1"
      "ch_cap (env q) = 1" "length (wpcs (wps q)) = 2" "wpcs (wps q) ! 1 = WRun (sample_job ''2'')"
      "term_pc q = TNone"
    using sample_pipe_run pipe_schedule by metis
  have "pipe_step (\<lambda>_. None) (\<lambda>_ m. m) (\<lambda>_. 0) (sample_pipe_start\<lparr>pq := q\<rparr>)
      (sample_pipe_start\<lparr>pq := q, pb := (batch_init (sample_worker []) None)\<lparr>stopped := True\<rparr>\<rparr>)"
    using pipe_stop [of "sample_pipe_start\<lparr>pq := q\<rparr>" "\<lambda>_. None" "\<lambda>_ m. m" "\<lambda>_. 0"
        "(batch_init (sample_worker []) None)\<lparr>stopped := True\<rparr>"]
    by (simp add: sample_pipe_start_def batch_init_def sample_worker_def)
  with r have "?R (sample_pipe_start\<lparr>pq := q,
      pb := (batch_init (sample_worker []) None)\<lparr>stopped := True\<rparr>\<rparr>)"
    by (rule reach_step)
  then show ?thesis using q by (intro exI conjI) (auto simp: hung_def)
qed

subsection \<open>Properties\<close>

text \<open>
  C1: No record is lost or duplicated anywhere between storage and the database while the program
  runs. Whatever the interleaving of pushes, dispatcher, queue workers and batch worker, and however
  the database answers: every accepted record is in exactly one place, namely in exactly one of the
  batches sent, in the worker's buffer, on the record channel, or in flight in the queue; the
  statements sent are those of the batches; and channel and buffer stay within their bounds.
\<close>

theorem pipeline_no_loss:
  assumes "\<forall>n. any_order (ord n)" and "buffer w = []" and "0 < maxBatch w"
    and "reach (pipe_init rc cap n w m) (pipe_step res ord dur) s"
  shows "\<exists>bs. db (pb s) = batch_calls (columns w) ord bs \<and>
    image_mset Record (mset (accepted (pq s))) =
      mset (concat bs) + mset (buffer (worker (pb s))) + mset (ch_buf (env (pq s))) +
      image_mset Record (cq_in_flight (pq s)) \<and>
    length (ch_buf (env (pq s))) \<le> rc \<and> int (length (buffer (worker (pb s)))) < maxBatch w"
proof -
  have inv: "pipe_inv rc cap n ord w s" by (rule pipe_reach_inv [OF assms])
  then obtain bs where bs: "batch_ok ord w (taken s) bs (pb s)"
    and ex: "map Record (executed (wps (pq s))) = taken s @ ch_buf (env (pq s))"
    by (auto simp: pipe_inv_def)
  have "mset (accepted (pq s)) = mset (executed (wps (pq s))) + cq_in_flight (pq s)"
    using inv cq.conserve [of cap n "pq s"] by (simp add: pipe_inv_def)
  then have "image_mset Record (mset (accepted (pq s))) =
      mset (map Record (executed (wps (pq s)))) + image_mset Record (cq_in_flight (pq s))"
    by simp
  also have "mset (map Record (executed (wps (pq s)))) =
      mset (concat bs) + mset (buffer (worker (pb s))) + mset (ch_buf (env (pq s)))"
    using bs unfolding ex by (auto simp: batch_ok_def simp flip: mset_append)
  finally show ?thesis using bs inv by (auto simp: batch_ok_def pipe_inv_def chan_ok_def)
qed

theorem pipeline_no_loss_witness:
  "\<exists>s bs. reach (pipe_init 1 2 2 (sample_worker []) None) (pipe_step (\<lambda>_. None) (\<lambda>_ m. m) (\<lambda>_. 0)) s \<and>
     {#sample_record ''1'' ''{}'', sample_record ''2'' ''{}''#} =
       mset (concat bs) + mset (buffer (worker (pb s))) + mset (ch_buf (env (pq s))) +
       image_mset Record (cq_in_flight (pq s))"
proof -
  obtain s where s: "reach (pipe_init 1 2 2 (sample_worker []) None) (pipe_step (\<lambda>_. None) (\<lambda>_ m. m) (\<lambda>_. 0)) s"
    "accepted (pq s) = [sample_job ''1'', sample_job ''2'']"
    using sample_pipe_reach by blast
  have "\<forall>n :: nat. any_order (\<lambda>m. m)" "buffer (sample_worker []) = []" "0 < maxBatch (sample_worker [])"
    by (simp_all add: sample_worker_def)
  from pipeline_no_loss [OF this s(1)] show ?thesis using s by (auto simp: sample_job_def)
qed

text \<open>
  C32: Shutdown can hang. The same context stops the batch worker and starts the deferred \<^verbatim>\<open>Terminate\<close>.
  Once the batch worker has stopped while the record channel is full and a queue worker has a job in
  hand, that worker stays there for ever, the wait group never reaches zero, and \<^verbatim>\<open>Terminate\<close> never
  gets past its wait, whatever happens next.
\<close>

theorem shutdown_hangs:
  assumes "\<forall>n. any_order (ord n)" and "buffer w = []" and "0 < maxBatch w"
    and "reach (pipe_init rc cap n w m) (pipe_step res ord dur) s" and "hung i s"
    and "\<not> past_wait (term_pc (pq s))" and "(pipe_step res ord dur)\<^sup>*\<^sup>* s s'"
  shows "hung i s' \<and> 1 \<le> wg (wps (pq s')) \<and> \<not> past_wait (term_pc (pq s'))"
  using assms by (rule hung_wait_forever)

theorem shutdown_hangs_witness:
  "\<exists>s. reach (pipe_init 1 2 2 (sample_worker []) None) (pipe_step (\<lambda>_. None) (\<lambda>_ m. m) (\<lambda>_. 0)) s \<and>
     hung 1 s \<and> 1 \<le> wg (wps (pq s))"
proof -
  obtain s where s: "reach (pipe_init 1 2 2 (sample_worker []) None) (pipe_step (\<lambda>_. None) (\<lambda>_ m. m) (\<lambda>_. 0)) s"
    "hung 1 s" "\<not> past_wait (term_pc (pq s))"
    using sample_pipe_reach by force
  have "\<forall>n :: nat. any_order (\<lambda>m. m)" "buffer (sample_worker []) = []" "0 < maxBatch (sample_worker [])"
    by (simp_all add: sample_worker_def)
  from shutdown_hangs [OF this s rtranclp.rtrancl_refl] s show ?thesis by blast
qed

end
