(* ===== verification/SampleCluster.thy ===== *)
theory SampleCluster
  imports KubeTypes
begin

text \<open>
  One concrete instance of the third-party interface \<open>kube_api\<close>: accessors that read and write the
  \<^verbatim>\<open>metadata\<close> object of the JSON. It models no code of the ingester; it shows that the laws of
  \<^verbatim>\<open>KubeTypes\<close> can hold together, and the witnesses of later theories compute with it.
\<close>

definition metadata :: "unstructured \<Rightarrow> (string, json) gomap" where
  "metadata u = (case as_map (map_of (Object u) ''metadata'') of None \<Rightarrow> [] | Some m \<Rightarrow> m)"

definition meta_string :: "string \<Rightarrow> unstructured \<Rightarrow> string" where
  "meta_string k u = as_string (map_of (metadata u) k)"

definition meta_time :: "string \<Rightarrow> unstructured \<Rightarrow> gotime option" where
  "meta_time k u =
     (case map_of (metadata u) k of
        Some (JInt n) \<Rightarrow> Some \<lparr>unixNano = n, location = ''UTC''\<rparr>
      | _ \<Rightarrow> None)"

definition set_meta_time :: "string \<Rightarrow> unstructured \<Rightarrow> gotime option \<Rightarrow> unstructured" where
  "set_meta_time k u t =
     u\<lparr>Object := AList.update ''metadata''
        (JObj (case t of None \<Rightarrow> AList.delete k (metadata u)
               | Some t \<Rightarrow> AList.update k (JInt (unixNano t)) (metadata u)))
        (Object u)\<rparr>"

fun string_members :: "(string, json) gomap \<Rightarrow> (string, string) gomap" where
  "string_members [] = []"
| "string_members ((k, j) # m) = (k, as_string (Some j)) # string_members m"

definition split_meta_key :: "string \<Rightarrow> goerror + (string \<times> string)" where
  "split_meta_key k =
     (case strings_Split k CHR ''/'' of
        [n] \<Rightarrow> Inr ([], n)
      | [ns, n] \<Rightarrow> Inr (ns, n)
      | _ \<Rightarrow> Inl (''unexpected key format: '' @ k))"

definition parse_group_version :: "string \<Rightarrow> goerror + (string \<times> string)" where
  "parse_group_version gv =
     (case strings_Split gv CHR ''/'' of
        [v] \<Rightarrow> Inr ([], v)
      | [g, v] \<Rightarrow> Inr (g, v)
      | _ \<Rightarrow> Inl (''unexpected GroupVersion string: '' @ gv))"

definition sample_api :: kube_api where
  "sample_api =
     \<lparr>GetName = meta_string ''name'',
      GetNamespace = meta_string ''namespace'',
      GetKind = (\<lambda>u. as_string (map_of (Object u) ''kind'')),
      GetAPIVersion = (\<lambda>u. as_string (map_of (Object u) ''apiVersion'')),
      GetUID = meta_string ''uid'',
      GetResourceVersion = meta_string ''resourceVersion'',
      GetLabels = (\<lambda>u. case as_map (map_of (metadata u) ''labels'') of
                     None \<Rightarrow> [] | Some m \<Rightarrow> string_members m),
      GetCreationTimestamp = (\<lambda>u. case meta_time ''creationTimestamp'' u of
                     None \<Rightarrow> \<lparr>unixNano = 0, location = ''UTC''\<rparr> | Some t \<Rightarrow> t),
      GetDeletionTimestamp = meta_time ''deletionTimestamp'',
      SetDeletionTimestamp = set_meta_time ''deletionTimestamp'',
      MetaNamespaceKeyFunc = (\<lambda>u. Inr (meta_key (meta_string ''namespace'' u)
                                         (meta_string ''name'' u))),
      SplitMetaNamespaceKey = split_meta_key,
      ParseGroupVersion = parse_group_version,
      gvr_String = (\<lambda>g. Group g @ ''/'' @ Version g @ '', Resource='' @ Resource g),
      gvr_Empty = (\<lambda>g. Group g = [] \<and> Version g = [] \<and> Resource g = [])\<rparr>"

text \<open>A namespaced object.\<close>

definition sample_object :: "string \<Rightarrow> string \<Rightarrow> string \<Rightarrow> string \<Rightarrow> string \<Rightarrow> unstructured" where
  "sample_object apiVersion kind ns n uid =
     \<lparr>Object = [(''apiVersion'', JStr apiVersion), (''kind'', JStr kind),
        (''metadata'', JObj [(''name'', JStr n), (''namespace'', JStr ns), (''uid'', JStr uid)])]\<rparr>"

lemmas sample_defs =
  sample_api_def sample_object_def meta_string_def metadata_def meta_key_def split_meta_key_def
  parse_group_version_def meta_time_def set_meta_time_def

lemma metadata_set_meta_time:
  "metadata (set_meta_time k u t) =
     (case t of None \<Rightarrow> AList.delete k (metadata u)
      | Some t \<Rightarrow> AList.update k (JInt (unixNano t)) (metadata u))"
  unfolding set_meta_time_def by (simp add: metadata_def update_conv split: option.splits)

lemma meta_string_set_meta_time:
  "k \<noteq> k' \<Longrightarrow> meta_string k (set_meta_time k' u t) = meta_string k u"
  by (simp add: meta_string_def metadata_set_meta_time delete_conv update_conv
      split: option.splits)

lemma Object_set_meta_time:
  "k \<noteq> ''metadata'' \<Longrightarrow>
     map_of (Object (set_meta_time k' u t)) k = map_of (Object u) k"
  by (simp add: set_meta_time_def update_conv)

lemma sample_meta_key_law: "meta_key_law sample_api"
  by (auto simp: meta_key_law_def sample_api_def split_meta_key_def meta_key_def
      strings_Split_append strings_Split_no_sep)

lemma sample_deletion_law: "deletion_law sample_api"
  by (simp add: deletion_law_def sample_api_def meta_string_set_meta_time Object_set_meta_time
      meta_time_def metadata_set_meta_time delete_conv update_conv split: option.splits)

end
