(* ===== verification/RouterKeys.thy ===== *)
theory RouterKeys
  imports SampleCluster
begin

text \<open>
  The key functions and the static table of \<^verbatim>\<open>internal/router/helpers.go\<close>: work-queue keys
  (\<open>buildKey\<close>, \<open>splitKey\<close>), informer keys, store keys, the embedded asset and its parser.
  (\<^verbatim>\<open>NewStaticRouters\<close>, of the same file, is in the theory \<^verbatim>\<open>WorkPool\<close>.)
\<close>

type_synonym key_parts = "string \<times> string \<times> string \<times> string \<times> string \<times> string"

subsection \<open>Work-queue keys\<close>

definition splitKey :: "kube_api \<Rightarrow> string \<Rightarrow> key_parts outcome" where
  "splitKey api full =
     (let parts = strings_SplitN2 full CHR ''|'' in
      if length parts \<noteq> 2 then Err (''invalid key: '' @ full)
      else case SplitMetaNamespaceKey api (parts ! 1) of
        Inl err \<Rightarrow> Ok ([], [], [], [], [], [])
      | Inr (ns, n) \<Rightarrow>
          (let gvrk = strings_Split (parts ! 0) CHR ''/'' in
           bind_outcome (go_index gvrk 0) (\<lambda>gr.
           bind_outcome (go_index gvrk 1) (\<lambda>v.
           bind_outcome (go_index gvrk 2) (\<lambda>r.
           bind_outcome (go_index gvrk 3) (\<lambda>k.
             Ok (gr, v, r, k, ns, n)))))))"

definition buildKey :: "kube_api \<Rightarrow> gvr \<Rightarrow> string \<Rightarrow> unstructured \<Rightarrow> goerror + string" where
  "buildKey api g kind obj =
     (case MetaNamespaceKeyFunc api obj of
        Inl err \<Rightarrow> Inl err
      | Inr key \<Rightarrow> Inr (Group g @ ''/'' @ Version g @ ''/'' @ Resource g @ ''/'' @ kind @ ''|'' @ key))"

subsection \<open>Informer and store keys\<close>

definition getInformerKey :: "gvr \<Rightarrow> string \<Rightarrow> string \<Rightarrow> string" where
  "getInformerKey g kind ns =
     (if length ns > 0
      then Group g @ ''/'' @ Version g @ ''/'' @ Resource g @ ''/'' @ kind @ ''|'' @ ns
      else Group g @ ''/'' @ Version g @ ''/'' @ Resource g @ ''/'' @ kind @ ''|'')"

definition getObjectKey :: "string \<Rightarrow> string \<Rightarrow> string" where
  "getObjectKey ns n = (if length ns > 0 then ns @ ''/'' @ n else n)"

subsection \<open>The embedded table of static routers\<close>

text \<open>The embedded file system is a map from paths to contents; a missing file is a panic.\<close>

definition MustLoad :: "(string, string) gomap \<Rightarrow> string \<Rightarrow> string outcome" where
  "MustLoad static filename =
     (let filename = (if strings_HasPrefix filename ''assets/'' then filename
                      else ''assets/'' @ filename)
      in case map_of static filename of
           None \<Rightarrow> Panic (''open '' @ filename @ '': file does not exist'')
         | Some b \<Rightarrow> Ok (strings_TrimSpace b))"

definition router_static_fs :: "(string, string) gomap" where
  "router_static_fs =
     [(''assets/static'',
       ''apiextensions.k8s.io/v1/customresourcedefinitions/CustomResourceDefinition'')]"

fun static_row_loop :: "string list \<Rightarrow> (string, string) gomap list \<Rightarrow> (string, string) gomap list"
where
  "static_row_loop [] result = result"
| "static_row_loop (row # rows) result =
     (let p = strings_Split row CHR ''/'' in
      if length p \<noteq> 4 then static_row_loop rows result
      else (let pm = AList.update ''group'' (p ! 0) [];
                pm = AList.update ''version'' (p ! 1) pm;
                pm = AList.update ''resource'' (p ! 2) pm;
                pm = AList.update ''kind'' (p ! 3) pm
            in static_row_loop rows (result @ [pm])))"

definition getRoutersFromStatic :: "string \<Rightarrow> (string, string) gomap list" where
  "getRoutersFromStatic static = static_row_loop (strings_Split static CHR 0x0A) []"

subsection \<open>Names that keys can carry\<close>

text \<open>API groups, versions, plurals and kinds contain neither separator of a key.\<close>

definition key_clean :: "string \<Rightarrow> bool" where
  "key_clean s \<longleftrightarrow> CHR ''/'' \<notin> set s \<and> CHR ''|'' \<notin> set s"

definition gvr_clean :: "gvr \<Rightarrow> bool" where
  "gvr_clean g \<longleftrightarrow> key_clean (Group g) \<and> key_clean (Version g) \<and> key_clean (Resource g)"

text \<open>One line of the table, and the entry it stands for.\<close>

definition static_line :: "string \<times> string \<times> string \<times> string \<Rightarrow> string" where
  "static_line row = (case row of (g, v, r, k) \<Rightarrow> g @ ''/'' @ v @ ''/'' @ r @ ''/'' @ k)"

definition static_entry :: "string \<times> string \<times> string \<times> string \<Rightarrow> (string, string) gomap" where
  "static_entry row =
     (case row of (g, v, r, k) \<Rightarrow>
        [(''group'', g), (''version'', v), (''resource'', r), (''kind'', k)])"

definition static_field_ok :: "string \<Rightarrow> bool" where
  "static_field_ok s \<longleftrightarrow> CHR ''/'' \<notin> set s \<and> CHR 0x0A \<notin> set s"

definition static_row_ok :: "string \<times> string \<times> string \<times> string \<Rightarrow> bool" where
  "static_row_ok row =
     (case row of (g, v, r, k) \<Rightarrow> static_field_ok g \<and> static_field_ok v \<and>
        static_field_ok r \<and> static_field_ok k)"

subsection \<open>Lemmas\<close>

lemma length_strings_Split: "length (strings_Split s c) = Suc (count_list s c)"
  by (induction s) (auto split: list.splits)

lemma split_gvrk:
  assumes "key_clean g" "key_clean v" "key_clean r" "key_clean k"
  shows "strings_Split (g @ ''/'' @ v @ ''/'' @ r @ ''/'' @ k) CHR ''/'' = [g, v, r, k]"
  using assms by (simp add: key_clean_def strings_Split_append strings_Split_no_sep)

lemma splitN2_key:
  assumes "key_clean g" "key_clean v" "key_clean r" "key_clean k"
  shows "strings_SplitN2 (g @ ''/'' @ v @ ''/'' @ r @ ''/'' @ k @ ''|'' @ rest) CHR ''|'' =
           [g @ ''/'' @ v @ ''/'' @ r @ ''/'' @ k, rest]"
  using assms strings_SplitN2_cut
    [of "CHR ''|''" "g @ ''/'' @ v @ ''/'' @ r @ ''/'' @ k" rest]
  by (simp add: key_clean_def)

lemma getInformerKey_eq:
  "getInformerKey g kind ns =
     Group g @ ''/'' @ Version g @ ''/'' @ Resource g @ ''/'' @ kind @ ''|'' @ ns"
  by (simp add: getInformerKey_def)

lemma splitKey_of_parts:
  assumes "gvr_clean g" "key_clean kind" "SplitMetaNamespaceKey api key = Inr (ns, n)"
  shows "splitKey api
           (Group g @ ''/'' @ Version g @ ''/'' @ Resource g @ ''/'' @ kind @ ''|'' @ key) =
         Ok (Group g, Version g, Resource g, kind, ns, n)"
proof -
  note gc = assms(1)[unfolded gvr_clean_def]
  have cut: "strings_SplitN2
      (Group g @ ''/'' @ Version g @ ''/'' @ Resource g @ ''/'' @ kind @ ''|'' @ key) CHR ''|'' =
      [Group g @ ''/'' @ Version g @ ''/'' @ Resource g @ ''/'' @ kind, key]"
    using gc assms(2) by (intro splitN2_key) auto
  have seg: "strings_Split (Group g @ ''/'' @ Version g @ ''/'' @ Resource g @ ''/'' @ kind)
      CHR ''/'' = [Group g, Version g, Resource g, kind]"
    using gc assms(2) by (intro split_gvrk) auto
  show ?thesis
    unfolding splitKey_def cut Let_def
    by (simp add: seg [simplified] assms(3) go_index_def)
qed

lemma static_row_loop_eq:
  "static_row_loop rows result =
     result @ map (\<lambda>row. let p = strings_Split row CHR ''/'' in
                 [(''group'', p ! 0), (''version'', p ! 1), (''resource'', p ! 2), (''kind'', p ! 3)])
        (filter (\<lambda>row. length (strings_Split row CHR ''/'') = 4) rows)"
  by (induction rows arbitrary: result) (auto simp: Let_def)

lemma static_line_fields:
  assumes "static_row_ok row"
  shows "strings_Split (static_line row) CHR ''/'' =
           (case row of (g, v, r, k) \<Rightarrow> [g, v, r, k])"
    and "CHR 0x0A \<notin> set (static_line row)"
  using assms
  by (auto simp: static_row_ok_def static_field_ok_def static_line_def strings_Split_append
      strings_Split_no_sep split: prod.splits)

lemma informer_key_inj:
  assumes "gvr_clean g" "gvr_clean h" "key_clean j" "key_clean k"
    and "getInformerKey g j ns = getInformerKey h k ms"
  shows "g = h \<and> j = k \<and> ns = ms"
proof -
  let ?gp = "Group g @ ''/'' @ Version g @ ''/'' @ Resource g @ ''/'' @ j"
  let ?hp = "Group h @ ''/'' @ Version h @ ''/'' @ Resource h @ ''/'' @ k"
  have cuts: "strings_SplitN2 (getInformerKey g j ns) CHR ''|'' = [?gp, ns]"
    "strings_SplitN2 (getInformerKey h k ms) CHR ''|'' = [?hp, ms]"
    using assms(1-4) unfolding getInformerKey_eq gvr_clean_def
    by (intro splitN2_key; blast)+
  with assms(5) have pre: "?gp = ?hp" and ns: "ns = ms" by auto
  have segs: "strings_Split ?gp CHR ''/'' = [Group g, Version g, Resource g, j]"
    "strings_Split ?hp CHR ''/'' = [Group h, Version h, Resource h, k]"
    using assms(1-4) unfolding gvr_clean_def by (intro split_gvrk; blast)+
  from pre have "[Group g, Version g, Resource g, j] = [Group h, Version h, Resource h, k]"
    using segs by metis
  with ns show ?thesis by (cases g; cases h) simp
qed

lemma static_table_entries:
  assumes "rows \<noteq> []" and "\<forall>row \<in> set rows. static_row_ok row"
  shows "getRoutersFromStatic (strings_Join (map static_line rows) [CHR 0x0A]) =
           map static_entry rows"
proof -
  have "strings_Split (strings_Join (map static_line rows) [CHR 0x0A]) CHR 0x0A =
          map static_line rows"
    using assms by (intro strings_Split_Join) (auto simp: static_line_fields)
  moreover have "filter (\<lambda>row. length (strings_Split row CHR ''/'') = 4) (map static_line rows) =
      map static_line rows"
    using assms(2) by (auto simp: static_line_fields filter_id_conv split: prod.splits)
  ultimately show ?thesis
    using assms(2)
    by (auto simp: getRoutersFromStatic_def static_row_loop_eq static_line_fields
        static_entry_def split: prod.splits)
qed

lemma buildKey_splitKey:
  assumes "meta_key_law api" "obj_clean api u" "gvr_clean g" "key_clean k"
    and "buildKey api g k u = Inr key"
  shows "splitKey api key =
    Ok (Group g, Version g, Resource g, k, GetNamespace api u, GetName api u)"
proof -
  from assms(5) obtain mk where mk: "MetaNamespaceKeyFunc api u = Inr mk"
    and key: "key = Group g @ ''/'' @ Version g @ ''/'' @ Resource g @ ''/'' @ k @ ''|'' @ mk"
    by (auto simp: buildKey_def split: sum.splits)
  show ?thesis
    unfolding key using assms(3,4) meta_key_lawD [OF assms(1,2) mk] by (rule splitKey_of_parts)
qed

subsection \<open>Properties\<close>

text \<open>
  C26: A key built for an object splits back into the group, version, resource and kind it was
  built from and into the object's namespace and name.
\<close>

theorem splitKey_buildKey:
  assumes "meta_key_law api" and "obj_clean api obj" and "gvr_clean g" and "key_clean kind"
    and "buildKey api g kind obj = Inr key"
  shows "splitKey api key =
    Ok (Group g, Version g, Resource g, kind, GetNamespace api obj, GetName api obj)"
proof -
  from assms(5) obtain k where k: "MetaNamespaceKeyFunc api obj = Inr k"
    and key: "key = Group g @ ''/'' @ Version g @ ''/'' @ Resource g @ ''/'' @ kind @ ''|'' @ k"
    by (auto simp: buildKey_def split: sum.splits)
  from assms(1,2) k have "SplitMetaNamespaceKey api k = Inr (GetNamespace api obj, GetName api obj)"
    by (rule meta_key_lawD)
  with assms(3,4) key show ?thesis by (simp only: splitKey_of_parts)
qed

theorem splitKey_buildKey_witness:
  "buildKey sample_api \<lparr>Group = ''core.krateo.io'', Version = ''v1'', Resource = ''repos''\<rparr> ''Repo''
     (sample_object ''core.krateo.io/v1'' ''Repo'' ''demo'' ''r1'' ''u1'') =
     Inr ''core.krateo.io/v1/repos/Repo|demo/r1'' \<and>
   splitKey sample_api ''core.krateo.io/v1/repos/Repo|demo/r1'' =
     Ok (''core.krateo.io'', ''v1'', ''repos'', ''Repo'', ''demo'', ''r1'')"
proof -
  let ?g = "\<lparr>Group = ''core.krateo.io'', Version = ''v1'', Resource = ''repos''\<rparr>"
  let ?u = "sample_object ''core.krateo.io/v1'' ''Repo'' ''demo'' ''r1'' ''u1''"
  have names: "GetNamespace sample_api ?u = ''demo''" "GetName sample_api ?u = ''r1''"
    by (simp_all add: sample_defs)
  have k: "buildKey sample_api ?g ''Repo'' ?u = Inr ''core.krateo.io/v1/repos/Repo|demo/r1''"
    by (simp add: buildKey_def sample_defs)
  have "splitKey sample_api ''core.krateo.io/v1/repos/Repo|demo/r1'' =
      Ok (Group ?g, Version ?g, Resource ?g, ''Repo'', GetNamespace sample_api ?u,
        GetName sample_api ?u)"
    using k names
    by (intro splitKey_buildKey sample_meta_key_law)
       (auto simp: obj_clean_def gvr_clean_def key_clean_def)
  with k names show ?thesis by simp
qed

text \<open>
  C38: \<^verbatim>\<open>splitKey\<close> panics exactly on the keys that have a bar and an acceptable object part but
  fewer than three slashes before the bar: the four indexings are unguarded.
\<close>

theorem splitKey_panics_iff:
  "is_panic (splitKey api full) \<longleftrightarrow>
     CHR ''|'' \<in> set full \<and>
     (\<exists>ns n. SplitMetaNamespaceKey api (tl (dropWhile (\<lambda>x. x \<noteq> CHR ''|'') full)) = Inr (ns, n)) \<and>
     count_list (takeWhile (\<lambda>x. x \<noteq> CHR ''|'') full) CHR ''/'' < 3"
  by (auto simp: splitKey_def is_panic_def strings_SplitN2_def go_index_def Let_def
      length_strings_Split split: sum.splits outcome.splits)

text \<open>
  When the object part of a key is malformed, \<^verbatim>\<open>splitKey\<close> reports no error: the error of
  \<^verbatim>\<open>SplitMetaNamespaceKey\<close> is dropped and six empty strings are returned as if the key were valid.
\<close>

theorem splitKey_swallows_error:
  assumes "CHR ''|'' \<notin> set p" and "SplitMetaNamespaceKey api r = Inl e"
  shows "splitKey api (p @ CHR ''|'' # r) = Ok ([], [], [], [], [], [])"
  using assms by (simp add: splitKey_def strings_SplitN2_cut)

theorem splitKey_swallows_error_witness:
  "splitKey sample_api (''g/v/r/k'' @ CHR ''|'' # ''a/b/c'') = Ok ([], [], [], [], [], [])"
  by (rule splitKey_swallows_error [where e = "''unexpected key format: a/b/c''"])
     (simp_all add: sample_defs)

text \<open>
  Informer keys do not collide: two registrations have the same key only when group, version,
  resource, kind and namespace all agree.
\<close>

theorem getInformerKey_inj:
  assumes "gvr_clean g" "gvr_clean h" "key_clean j" "key_clean k"
    and "getInformerKey g j ns = getInformerKey h k ms"
  shows "g = h \<and> j = k \<and> ns = ms"
  using assms by (rule informer_key_inj)

theorem getInformerKey_inj_witness:
  "getInformerKey \<lparr>Group = ''apps'', Version = ''v1'', Resource = ''deployments''\<rparr> ''Deployment'' ''a'' \<noteq>
   getInformerKey \<lparr>Group = ''apps'', Version = ''v1'', Resource = ''deployments''\<rparr> ''Deployment'' ''b''"
  using getInformerKey_inj
    [of "\<lparr>Group = ''apps'', Version = ''v1'', Resource = ''deployments''\<rparr>"
        "\<lparr>Group = ''apps'', Version = ''v1'', Resource = ''deployments''\<rparr>"
        "''Deployment''" "''Deployment''" "''a''" "''b''"]
  by (auto simp: gvr_clean_def key_clean_def)

text \<open>
  The static table is read line by line: the lines of a table that has one well-formed line
  per row give exactly those rows, in order.
\<close>

theorem getRoutersFromStatic_lines:
  assumes "rows \<noteq> []" and "\<forall>row \<in> set rows. static_row_ok row"
  shows "getRoutersFromStatic (strings_Join (map static_line rows) [CHR 0x0A]) =
           map static_entry rows"
  using assms by (rule static_table_entries)

theorem getRoutersFromStatic_lines_witness:
  "getRoutersFromStatic (strings_Join (map static_line
      [(''apps'', ''v1'', ''deployments'', ''Deployment''), ([], ''v1'', ''pods'', ''Pod'')]) [CHR 0x0A]) =
   [[(''group'', ''apps''), (''version'', ''v1''), (''resource'', ''deployments''),
     (''kind'', ''Deployment'')],
    [(''group'', []), (''version'', ''v1''), (''resource'', ''pods''), (''kind'', ''Pod'')]]"
  using getRoutersFromStatic_lines
    [of "[(''apps'', ''v1'', ''deployments'', ''Deployment''), ([], ''v1'', ''pods'', ''Pod'')]"]
  by (simp add: static_row_ok_def static_field_ok_def static_entry_def)

text \<open>
  Lines that do not have exactly four segments are skipped, whatever they hold, and the other
  lines are unaffected.
\<close>

theorem getRoutersFromStatic_skips:
  "getRoutersFromStatic static =
     concat (map getRoutersFromStatic
       (filter (\<lambda>row. count_list row CHR ''/'' = 3) (strings_Split static CHR 0x0A)))"
proof -
  have one: "getRoutersFromStatic row =
      [[(''group'', strings_Split row CHR ''/'' ! 0), (''version'', strings_Split row CHR ''/'' ! 1),
        (''resource'', strings_Split row CHR ''/'' ! 2), (''kind'', strings_Split row CHR ''/'' ! 3)]]"
    if "row \<in> set (strings_Split static CHR 0x0A)" and "count_list row CHR ''/'' = 3" for row
    using that strings_Split_pieces [of row static "CHR 0x0A"]
    by (simp add: getRoutersFromStatic_def static_row_loop_eq strings_Split_no_sep
        length_strings_Split Let_def)
  have "concat (map getRoutersFromStatic rows) = map (\<lambda>row.
      [(''group'', strings_Split row CHR ''/'' ! 0), (''version'', strings_Split row CHR ''/'' ! 1),
       (''resource'', strings_Split row CHR ''/'' ! 2), (''kind'', strings_Split row CHR ''/'' ! 3)])
      rows"
    if "\<forall>row \<in> set rows. row \<in> set (strings_Split static CHR 0x0A) \<and> count_list row CHR ''/'' = 3"
    for rows
    using that by (induction rows) (auto simp: one)
  then show ?thesis
    by (simp add: getRoutersFromStatic_def static_row_loop_eq length_strings_Split Let_def)
qed

end
