(* ===== verification/Router.thy ===== *)
theory Router
  imports RouterKeys Telemetry
begin

text \<open>
  \<^verbatim>\<open>internal/router/\<close>: the events and the queue items, the ingester that publishes events
  (\<^verbatim>\<open>handler.go\<close>), and the router (\<^verbatim>\<open>router.go\<close>) that turns informer callbacks into queue items.

  An informer is known by a number; the informer factory is the argument \<open>mkInf\<close>. The work queue is
  third-party: its state has an arbitrary type, and \<^verbatim>\<open>Add\<close> is an argument. Publishing is returned as
  the list of events handed to the bus.
\<close>

subsection \<open>Events and queue items\<close>

datatype Operation = CREATE | UPDATE | DELETE

datatype Target = MANAGER | STORAGE

record InformerEvent =
  EventName :: string
  EventType :: Operation
  EventTarget :: Target
  Obj :: objref
  EventResource :: string

text \<open>\<^verbatim>\<open>EventID\<close>: every informer event is published under the same name.\<close>

definition EventID :: "InformerEvent \<Rightarrow> string" where
  "EventID ev = ''informerevent''"

record QueueItem =
  Key :: string
  ItemObject :: "objref option"

type_synonym informer = nat

subsection \<open>The ingester\<close>

text \<open>
  The record channel and the cluster name of an ingester are never set: \<^verbatim>\<open>NewIngester\<close> leaves them
  nil and empty, and nothing reads them.
\<close>

record IngesterOpts =
  io_EventBus :: handle

record ingester =
  ing_recordChan :: "handle option"
  ing_clusterName :: string
  ing_eventbus :: handle

definition NewIngester :: "IngesterOpts \<Rightarrow> goerror + ingester" where
  "NewIngester opts =
     Inr \<lparr>ing_recordChan = None, ing_clusterName = [], ing_eventbus = io_EventBus opts\<rparr>"

definition ingester_Handle ::
  "kube_api \<Rightarrow> oheap \<Rightarrow> objref option \<Rightarrow> Operation \<Rightarrow> Target \<Rightarrow> string \<Rightarrow> InformerEvent list" where
  "ingester_Handle api h obj op tg r =
     (case obj of
        None \<Rightarrow> []
      | Some p \<Rightarrow> [\<lparr>EventName = GetName api (h p), EventType = op, EventTarget = tg,
                    Obj = p, EventResource = r\<rparr>])"

subsection \<open>Routers\<close>

text \<open>The pool's table of informers; routers built with a pool register in it.\<close>

type_synonym informer_table = "(string, informer) gomap"

definition RegisterInformer ::
  "informer_table \<Rightarrow> gvr \<Rightarrow> string \<Rightarrow> string \<Rightarrow> informer \<Rightarrow> informer_table" where
  "RegisterInformer infs g ns kind ifm = AList.update (getInformerKey g kind ns) ifm infs"

record Router =
  informers :: "informer list"
  namespaces :: "string list"
  Gvr :: gvr
  kind :: string

record RouterOpts =
  opt_Namespaces :: "string list"
  opt_Gvr :: gvr
  opt_Kind :: string

text \<open>
  The loop of \<^verbatim>\<open>NewRouter\<close> over the namespaces; the table is \<^term>\<open>None\<close> for a nil \<^verbatim>\<open>WgPool\<close>.
\<close>

fun new_informers ::
  "(gvr \<Rightarrow> string \<Rightarrow> informer) \<Rightarrow> gvr \<Rightarrow> string \<Rightarrow> string list \<Rightarrow> informer list \<Rightarrow>
     informer_table option \<Rightarrow> informer list \<times> informer_table option" where
  "new_informers mkInf g k [] infs pool = (infs, pool)"
| "new_informers mkInf g k (ns # nss) infs pool =
     (let ifm = mkInf g ns in
      new_informers mkInf g k nss (infs @ [ifm])
        (case pool of None \<Rightarrow> None | Some t \<Rightarrow> Some (RegisterInformer t g ns k ifm)))"

definition NewRouter ::
  "(gvr \<Rightarrow> string \<Rightarrow> informer) \<Rightarrow> RouterOpts \<Rightarrow> informer_table option \<Rightarrow>
     Router \<times> informer_table option" where
  "NewRouter mkInf opts pool =
     (let nss = (if length (opt_Namespaces opts) = 0 then [[]] else opt_Namespaces opts);
          r = new_informers mkInf (opt_Gvr opts) (opt_Kind opts) nss [] pool
      in (\<lparr>informers = fst r, namespaces = nss, Gvr = opt_Gvr opts, kind = opt_Kind opts\<rparr>, snd r))"

fun informers_by_namespace_loop ::
  "string list \<Rightarrow> informer list \<Rightarrow> nat \<Rightarrow> (string, informer) gomap \<Rightarrow> (string, informer) gomap outcome"
where
  "informers_by_namespace_loop [] infs i result = Ok result"
| "informers_by_namespace_loop (ns # nss) infs i result =
     bind_outcome (go_index infs i) (\<lambda>ifm.
       informers_by_namespace_loop nss infs (Suc i) (AList.update ns ifm result))"

definition InformersByNamespace :: "Router \<Rightarrow> (string, informer) gomap outcome" where
  "InformersByNamespace r = informers_by_namespace_loop (namespaces r) (informers r) 0 []"

text \<open>
  \<^verbatim>\<open>Run\<close>: what the router does, in order. \<open>synced\<close> is the answer of \<^verbatim>\<open>WaitForCacheSync\<close>.
\<close>

datatype run_action =
    AddEventHandler informer
  | LaunchInformer informer
  | WaitForCacheSync "informer list"
  | WaitForStop

fun launch_informers :: "informer list \<Rightarrow> run_action list" where
  "launch_informers [] = []"
| "launch_informers (ifm # infs) = AddEventHandler ifm # LaunchInformer ifm # launch_informers infs"

definition Router_Run :: "Router \<Rightarrow> bool \<Rightarrow> run_action list" where
  "Router_Run r synced =
     launch_informers (informers r) @ [WaitForCacheSync (informers r)] @
     (if \<not> synced then [] else [WaitForStop])"

subsection \<open>Informer callbacks\<close>

text \<open>What a router's \<^verbatim>\<open>queue\<close> and \<^verbatim>\<open>metrics\<close> fields point to.\<close>

record 'q router_state =
  rqueue :: 'q
  rmetrics :: "Metrics option"

definition router_enqueue ::
  "kube_api \<Rightarrow> ('q \<Rightarrow> QueueItem \<Rightarrow> 'q) \<Rightarrow> oheap \<Rightarrow> Router \<Rightarrow> objref \<Rightarrow> objref option \<Rightarrow>
     'q router_state \<Rightarrow> 'q router_state" where
  "router_enqueue api add h r obj deletedObj s =
     (let k = buildKey api (Gvr r) (kind r) (h obj);
          s = s\<lparr>rmetrics := IncResourcesReceived (rmetrics s)\<rparr>
      in case k of
           Inl err \<Rightarrow> s\<lparr>rmetrics := IncResourcesDropped (rmetrics s) ''same_resource_version''\<rparr>
         | Inr fullKey \<Rightarrow> s\<lparr>rqueue := add (rqueue s) \<lparr>Key = fullKey, ItemObject = deletedObj\<rparr>\<rparr>)"

definition onAdd ::
  "kube_api \<Rightarrow> ('q \<Rightarrow> QueueItem \<Rightarrow> 'q) \<Rightarrow> oheap \<Rightarrow> Router \<Rightarrow> anyobj \<Rightarrow>
     'q router_state \<Rightarrow> 'q router_state" where
  "onAdd api add h r obj s =
     (case obj of
        AnyUnstructured objUn \<Rightarrow> router_enqueue api add h r objUn None s
      | _ \<Rightarrow> s)"

definition onUpdate ::
  "kube_api \<Rightarrow> ('q \<Rightarrow> QueueItem \<Rightarrow> 'q) \<Rightarrow> oheap \<Rightarrow> Router \<Rightarrow> anyobj \<Rightarrow> anyobj \<Rightarrow>
     'q router_state \<Rightarrow> 'q router_state" where
  "onUpdate api add h r oldObj newObj s =
     (case (oldObj, newObj) of
        (AnyUnstructured oldObjUn, AnyUnstructured newObjUn) \<Rightarrow>
          (if GetResourceVersion api (h oldObjUn) = GetResourceVersion api (h newObjUn)
           then s\<lparr>rmetrics := IncResourcesDropped (rmetrics s) ''same_resource_version''\<rparr>
           else if GetDeletionTimestamp api (h newObjUn) \<noteq> None
           then router_enqueue api add h r newObjUn (Some newObjUn) s
           else router_enqueue api add h r newObjUn None s)
      | _ \<Rightarrow> s\<lparr>rmetrics := IncResourcesDropped (rmetrics s) ''unsupported_object_type''\<rparr>)"

definition onDelete ::
  "kube_api \<Rightarrow> ('q \<Rightarrow> QueueItem \<Rightarrow> 'q) \<Rightarrow> oheap \<Rightarrow> Router \<Rightarrow> anyobj \<Rightarrow>
     'q router_state \<Rightarrow> 'q router_state" where
  "onDelete api add h r obj s =
     (let obj = (case obj of AnyTombstone _ inner \<Rightarrow> inner | _ \<Rightarrow> obj)
      in case obj of
           AnyUnstructured objUn \<Rightarrow> router_enqueue api add h r objUn (Some objUn) s
         | _ \<Rightarrow> s)"



subsection \<open>The handler contract\<close>

text \<open>
  What the worker pool relies on of an \<^verbatim>\<open>EventHandler\<close>: nothing is published for a nil object, and
  exactly one event, with the given operation, target and resource, for an object.
\<close>

locale event_handler =
  fixes handle :: "oheap \<Rightarrow> objref option \<Rightarrow> Operation \<Rightarrow> Target \<Rightarrow> string \<Rightarrow> InformerEvent list"
  assumes handle_nil: "handle h None op tg r = []"
    and handle_some: "\<exists>ev. handle h (Some p) op tg r = [ev] \<and> Obj ev = p \<and> EventType ev = op \<and>
           EventTarget ev = tg \<and> EventResource ev = r"
begin

lemma handle_events:
  assumes "ev \<in> set (handle h obj op tg r)"
  shows "obj = Some (Obj ev) \<and> EventType ev = op \<and> EventTarget ev = tg \<and> EventResource ev = r"
proof (cases obj)
  case None
  with assms show ?thesis by (simp add: handle_nil)
next
  case (Some p)
  with assms show ?thesis using handle_some [of h p op tg r] by auto
qed

lemma handle_length: "length (handle h obj op tg r) \<le> 1"
proof (cases obj)
  case None
  then show ?thesis by (simp add: handle_nil)
next
  case (Some p)
  then show ?thesis using handle_some [of h p op tg r] by auto
qed

end

interpretation ing: event_handler "ingester_Handle api"
  by unfold_locales (auto simp: ingester_Handle_def)

subsection \<open>The subscriber contract\<close>

text \<open>
  The event bus delivers every informer event to every subscriber. A subscriber has a target of its
  own and leaves its state alone on events for another one, so that only the events addressed to it
  matter, in their order.
\<close>

text \<open>
  What a subscriber's goroutine does, in order: it subscribes its handler, waits until the stop channel
  is closed, and runs its deferred calls.
\<close>

datatype sub_action = SubSubscribe string | SubAwaitStop | SubUnsubscribe | SubCancelRouters

locale bus_subscriber =
  fixes deliver :: "'s \<Rightarrow> InformerEvent \<Rightarrow> 's" and target :: Target
  assumes ignores: "EventTarget ev \<noteq> target \<Longrightarrow> deliver s ev = s"
begin

lemma deliver_addressed:
  "run_all deliver s evs = run_all deliver s (filter (\<lambda>ev. EventTarget ev = target) evs)"
  by (induction evs arbitrary: s) (auto simp: ignores)

end

subsection \<open>Lemmas\<close>

lemmas callback_defs [go_simps] = onAdd_def onUpdate_def onDelete_def router_enqueue_def Let_def

lemma new_informers_eq:
  "new_informers mkInf g k nss infs pool =
     (infs @ map (mkInf g) nss,
      map_option (\<lambda>t. foldl (\<lambda>t ns. RegisterInformer t g ns k (mkInf g ns)) t nss) pool)"
  by (induction nss arbitrary: infs pool)
    (auto simp: Let_def option.map_ident split: option.split)

lemma NewRouter_eq:
  "NewRouter mkInf opts pool =
     (let nss = (if opt_Namespaces opts = [] then [[]] else opt_Namespaces opts) in
      (\<lparr>informers = map (mkInf (opt_Gvr opts)) nss, namespaces = nss, Gvr = opt_Gvr opts,
        kind = opt_Kind opts\<rparr>,
       map_option (\<lambda>t. foldl (\<lambda>t ns. RegisterInformer t (opt_Gvr opts) ns (opt_Kind opts)
                                       (mkInf (opt_Gvr opts) ns)) t nss) pool))"
  by (simp add: NewRouter_def new_informers_eq Let_def)

lemma informers_by_namespace_loop_eq:
  "i + length nss = length infs \<Longrightarrow>
     informers_by_namespace_loop nss infs i result =
       Ok (foldl (\<lambda>m (ns, ifm). AList.update ns ifm m) result (zip nss (drop i infs)))"
proof (induction nss arbitrary: i result)
  case Nil
  then show ?case by simp
next
  case (Cons ns nss)
  then have "drop i infs = infs ! i # drop (Suc i) infs"
    by (simp add: Cons_nth_drop_Suc)
  with Cons show ?case by (simp add: go_index_def)
qed

lemma map_of_foldl_update:
  "map_of (foldl (\<lambda>m (k, v). AList.update k v m) m kvs) =
     map_of m ++ map_of (rev kvs)"
  by (induction kvs arbitrary: m) (auto simp: update_conv' map_add_def fun_eq_iff split: option.splits)

lemma RegisterInformer_fold_lookup:
  assumes "gvr_clean g" "key_clean k"
  shows "map_of (foldl (\<lambda>t ns. RegisterInformer t g ns k (mkInf ns)) t nss)
           (getInformerKey g k n) =
         (if n \<in> set nss then Some (mkInf n) else map_of t (getInformerKey g k n))"
proof (induction nss arbitrary: t)
  case Nil
  then show ?case by simp
next
  case (Cons m nss)
  have "getInformerKey g k n = getInformerKey g k m \<longleftrightarrow> n = m"
    by (simp add: getInformerKey_eq)
  then show ?case using Cons by (auto simp: RegisterInformer_def update_conv')
qed

lemma RegisterInformer_fold_other:
  assumes "\<forall>ns \<in> set nss. key \<noteq> getInformerKey g k ns"
  shows "map_of (foldl (\<lambda>t ns. RegisterInformer t g ns k (mkInf ns)) t nss) key = map_of t key"
  using assms
  by (induction nss arbitrary: t) (auto simp: RegisterInformer_def update_conv')

subsection \<open>What a callback reports\<close>















subsection \<open>Properties\<close>



text \<open>
  A router built without namespaces watches all of them through one informer, and in general
  it has exactly one informer per namespace, in the order of the namespaces; its table by namespace
  is never out of range and returns for every watched namespace the informer created for it.
\<close>

theorem NewRouter_informers:
  assumes "NewRouter mkInf opts pool = (r, pool')"
  shows "namespaces r = (if opt_Namespaces opts = [] then [[]] else opt_Namespaces opts) \<and>
         informers r = map (mkInf (Gvr r)) (namespaces r) \<and>
         (\<exists>t. InformersByNamespace r = Ok t \<and> dom (map_of t) = set (namespaces r) \<and>
              (\<forall>ns \<in> set (namespaces r). map_of t ns = Some (mkInf (Gvr r) ns)))"
proof -
  have ns: "namespaces r = (if opt_Namespaces opts = [] then [[]] else opt_Namespaces opts)"
    and ifm: "informers r = map (mkInf (Gvr r)) (namespaces r)"
    using assms by (auto simp: NewRouter_eq Let_def)
  define kvs where "kvs = zip (namespaces r) (map (mkInf (Gvr r)) (namespaces r))"
  have ok: "InformersByNamespace r = Ok (foldl (\<lambda>m (k, v). AList.update k v m) [] kvs)"
    by (simp add: InformersByNamespace_def ifm informers_by_namespace_loop_eq kvs_def)
  have kvs: "kvs = map (\<lambda>n. (n, mkInf (Gvr r) n)) (namespaces r)"
    by (simp add: kvs_def zip_map2 zip_same_conv_map)
  have "map_of (rev kvs) n = (if n \<in> set (namespaces r) then Some (mkInf (Gvr r) n) else None)" for n
    unfolding kvs rev_map by (simp add: map_of_map_restrict restrict_map_def)
  then show ?thesis
    using ok ns ifm by (auto simp: map_of_foldl_update dom_def)
qed

theorem NewRouter_informers_witness:
  "informers (fst (NewRouter (\<lambda>g ns. length ns)
     \<lparr>opt_Namespaces = [''a'', ''bcd''], opt_Gvr = \<lparr>Group = [], Version = ''v1'', Resource = ''pods''\<rparr>,
      opt_Kind = ''Pod''\<rparr> None)) = [1, 3]"
  using NewRouter_informers
    [OF surjective_pairing, of "\<lambda>g ns. length ns"
     "\<lparr>opt_Namespaces = [''a'', ''bcd''], opt_Gvr = \<lparr>Group = [], Version = ''v1'', Resource = ''pods''\<rparr>,
       opt_Kind = ''Pod''\<rparr>" None]
  by simp

end
