(* ===== verification/Objects.thy ===== *)
theory Objects
  imports KubeTypes
begin

text \<open>
  \<^verbatim>\<open>internal/objects/\<close>: the resolver that storage builds at start-up, and the filter on object
  references.

  The dynamic client, the discovery client and the REST mapper are third-party; a resolver holds
  handles to them, and the calls are the fields of \<open>kube_client\<close>, acting on a world of any type
  (the API server, and the mapper's cache). Contexts and log lines are left out.
\<close>

subsection \<open>Errors with causes\<close>

text \<open>
  An error value: its dynamic type, its message, and what \<^verbatim>\<open>Unwrap\<close> returns (no, one or several
  errors). \<^verbatim>\<open>errors.As\<close> searches this tree in depth-first order for an error of the wanted type.
\<close>

datatype errtype = NoKindMatchError | StatusError | PlainError string

datatype errtree = GoErr (err_type: errtype) (err_msg: string) (err_unwrap: "errtree list")

fun errors_As :: "errtype \<Rightarrow> errtree \<Rightarrow> bool" where
  "errors_As T (GoErr t msg causes) \<longleftrightarrow> t = T \<or> list_ex (errors_As T) causes"

definition isNoKindMatchError :: "errtree \<Rightarrow> bool" where
  "isNoKindMatchError err = errors_As NoKindMatchError err"

subsection \<open>The clients\<close>

datatype scope_name = RESTScopeNameNamespace | RESTScopeNameRoot

record rest_mapping =
  map_Resource :: gvr
  map_Scope :: scope_name

datatype patch_type = MergePatchType | OtherPatchType string

text \<open>\<open>'ri\<close> is the type of resource interfaces and \<open>'w\<close> that of the world.\<close>

record ('ri, 'w) kube_client =
  cl_RESTMapping :: "handle \<Rightarrow> string \<times> string \<Rightarrow> string \<Rightarrow> 'w \<Rightarrow> (errtree + rest_mapping) \<times> 'w"
  cl_Invalidate :: "handle \<Rightarrow> 'w \<Rightarrow> 'w"
  cl_Resource :: "handle \<Rightarrow> gvr \<Rightarrow> 'ri"
  cl_Namespace :: "'ri \<Rightarrow> string \<Rightarrow> 'ri"
  cl_List :: "'ri \<Rightarrow> 'w \<Rightarrow> (errtree + unstructured list) \<times> 'w"
  cl_Get :: "'ri \<Rightarrow> string \<Rightarrow> 'w \<Rightarrow> (errtree + unstructured) \<times> 'w"
  cl_Patch :: "'ri \<Rightarrow> string \<Rightarrow> patch_type \<Rightarrow> string \<Rightarrow> string \<Rightarrow> 'w \<Rightarrow> (errtree + unstructured) \<times> 'w"
  cl_IsNotFound :: "errtree \<Rightarrow> bool"

subsection \<open>objects.go\<close>

record ObjectResolver =
  dynamicClient :: handle
  discoveryClient :: handle
  mapper :: handle
  mapperCache :: handle

text \<open>The four constructors of client-go are arguments; the first two may fail.\<close>

definition NewObjectResolver ::
  "('c \<Rightarrow> errtree + handle) \<Rightarrow> ('c \<Rightarrow> errtree + handle) \<Rightarrow> (handle \<Rightarrow> handle) \<Rightarrow>
     (handle \<Rightarrow> handle) \<Rightarrow> 'c \<Rightarrow> errtree + ObjectResolver" where
  "NewObjectResolver newDynamic newDiscovery newMemCache newMapper restConfig =
     (case newDynamic restConfig of
        Inl err \<Rightarrow> Inl err
      | Inr dyn \<Rightarrow>
          (case newDiscovery restConfig of
             Inl err \<Rightarrow> Inl err
           | Inr disc \<Rightarrow>
               (let cache = newMemCache disc in
                Inr \<lparr>dynamicClient = dyn, discoveryClient = disc, mapper = newMapper cache,
                     mapperCache = cache\<rparr>)))"

definition InvalidateRESTMapperCache ::
  "('ri, 'w) kube_client \<Rightarrow> ObjectResolver \<Rightarrow> 'w \<Rightarrow> 'w" where
  "InvalidateRESTMapperCache cl r w = cl_Invalidate cl (mapperCache r) w"

definition getResourceInterfaceForGVR ::
  "('ri, 'w) kube_client \<Rightarrow> ObjectResolver \<Rightarrow> gvk \<Rightarrow> string \<Rightarrow> 'w \<Rightarrow> (errtree + 'ri) \<times> 'w" where
  "getResourceInterfaceForGVR cl r g ns w =
     (case cl_RESTMapping cl (mapper r) (gvk_Group g, gvk_Kind g) (gvk_Version g) w of
        (Inl err, w) \<Rightarrow> (Inl err, w)
      | (Inr mapping, w) \<Rightarrow>
          (if map_Scope mapping = RESTScopeNameRoot
           then (Inr (cl_Resource cl (dynamicClient r) (map_Resource mapping)), w)
           else (Inr (cl_Namespace cl (cl_Resource cl (dynamicClient r) (map_Resource mapping)) ns), w)))"

text \<open>\<^term>\<open>Inr None\<close> is the pair of a nil list and a nil error.\<close>

definition resolver_List ::
  "('ri, 'w) kube_client \<Rightarrow> ObjectResolver \<Rightarrow> gvk \<Rightarrow> string \<Rightarrow> 'w \<Rightarrow>
     (errtree + unstructured list option) \<times> 'w" where
  "resolver_List cl r g ns w =
     (case getResourceInterfaceForGVR cl r g ns w of
        (Inl err, w) \<Rightarrow> if isNoKindMatchError err then (Inr None, w) else (Inl err, w)
      | (Inr dri, w) \<Rightarrow>
          (case cl_List cl dri w of
             (Inl err, w) \<Rightarrow> if cl_IsNotFound cl err then (Inr None, w) else (Inl err, w)
           | (Inr all, w) \<Rightarrow> (Inr (Some all), w)))"

record ObjectReference =
  ref_Kind :: string
  ref_Namespace :: string
  ref_Name :: string
  ref_APIVersion :: string

text \<open>\<open>toGVK\<close> is the reference's method \<^verbatim>\<open>GroupVersionKind\<close>.\<close>

definition ResolveReference ::
  "('ri, 'w) kube_client \<Rightarrow> (ObjectReference \<Rightarrow> gvk) \<Rightarrow> ObjectResolver \<Rightarrow> ObjectReference \<Rightarrow> 'w \<Rightarrow>
     (errtree + unstructured option) \<times> 'w" where
  "ResolveReference cl toGVK r ref w =
     (case getResourceInterfaceForGVR cl r (toGVK ref) (ref_Namespace ref) w of
        (Inl err, w) \<Rightarrow> (Inl err, w)
      | (Inr dri, w) \<Rightarrow>
          (case cl_Get cl dri (ref_Name ref) w of
             (Inl err, w) \<Rightarrow> if cl_IsNotFound cl err then (Inr None, w) else (Inl err, w)
           | (Inr res, w) \<Rightarrow> (Inr (Some res), w)))"

record PatchOpts =
  PatchData :: string
  GVK :: gvk
  patch_Name :: string
  patch_Namespace :: string

definition resolver_Patch ::
  "('ri, 'w) kube_client \<Rightarrow> ObjectResolver \<Rightarrow> PatchOpts \<Rightarrow> 'w \<Rightarrow> errtree option \<times> 'w" where
  "resolver_Patch cl r opts w =
     (case getResourceInterfaceForGVR cl r (GVK opts) (patch_Namespace opts) w of
        (Inl err, w) \<Rightarrow> if isNoKindMatchError err then (None, w) else (Some err, w)
      | (Inr dri, w) \<Rightarrow>
          (case cl_Patch cl dri (patch_Name opts) MergePatchType (PatchData opts) ''krateo'' w of
             (Inl err, w) \<Rightarrow> if \<not> cl_IsNotFound cl err then (Some err, w) else (None, w)
           | (Inr _, w) \<Rightarrow> (None, w)))"

subsection \<open>accept.go\<close>

fun accept_loop :: "string list \<Rightarrow> string \<Rightarrow> bool \<Rightarrow> bool" where
  "accept_loop [] apiGroup ok = ok"
| "accept_loop (el # els) apiGroup ok =
     accept_loop els apiGroup (ok \<or> strings_HasSuffix apiGroup el)"

definition Accept :: "(ObjectReference \<Rightarrow> gvk) \<Rightarrow> ObjectReference \<Rightarrow> bool" where
  "Accept toGVK ref = accept_loop [''.krateo.io''] (gvk_Group (toGVK ref)) True"

subsection \<open>Lemmas\<close>

text \<open>\<^verbatim>\<open>errors.As\<close> finds an error wherever it is in the tree.\<close>

fun causes_of :: "errtree \<Rightarrow> errtree set" where
  "causes_of (GoErr t msg cs) = insert (GoErr t msg cs) (\<Union> (causes_of ` set cs))"

lemma errors_As_iff: "errors_As T e \<longleftrightarrow> (\<exists>c \<in> causes_of e. err_type c = T)"
  by (induction e) (auto simp: list_ex_iff)

lemma accept_loop_True: "accept_loop els g True"
  by (induction els) auto

text \<open>Every group passes: the accumulator starts as true and is only ever or-ed with the test.\<close>

lemma Accept_all: "Accept toGVK ref"
  by (simp add: Accept_def accept_loop_True)

text \<open>A kind the API server does not serve: the lookup fails and the clients are not called.\<close>

lemma interface_unmapped:
  "cl_RESTMapping cl (mapper r) (gvk_Group g, gvk_Kind g) (gvk_Version g) w = (Inl err, w') \<Longrightarrow>
     getResourceInterfaceForGVR cl r g ns w = (Inl err, w')"
  by (simp add: getResourceInterfaceForGVR_def)

text \<open>The interface of a mapped kind: the namespace counts only for namespaced kinds.\<close>

definition interface_of ::
  "('ri, 'w) kube_client \<Rightarrow> ObjectResolver \<Rightarrow> rest_mapping \<Rightarrow> string \<Rightarrow> 'ri" where
  "interface_of cl r m ns =
     (let res = cl_Resource cl (dynamicClient r) (map_Resource m) in
      case map_Scope m of RESTScopeNameRoot \<Rightarrow> res | RESTScopeNameNamespace \<Rightarrow> cl_Namespace cl res ns)"

lemma interface_mapped:
  "cl_RESTMapping cl (mapper r) (gvk_Group g, gvk_Kind g) (gvk_Version g) w = (Inr m, w') \<Longrightarrow>
     getResourceInterfaceForGVR cl r g ns w = (Inr (interface_of cl r m ns), w')"
  by (simp add: getResourceInterfaceForGVR_def interface_of_def Let_def split: scope_name.split)

definition kind_known :: "errtree \<Rightarrow> bool" where
  "kind_known err \<longleftrightarrow> (\<forall>c \<in> causes_of err. err_type c \<noteq> NoKindMatchError)"

text \<open>The lookup succeeded and the request on the interface failed for another reason than absence.\<close>

definition request_failed ::
  "('ri, 'w) kube_client \<Rightarrow> ObjectResolver \<Rightarrow> string \<Rightarrow> errtree + rest_mapping \<Rightarrow> 'w \<Rightarrow>
     ('ri \<Rightarrow> 'w \<Rightarrow> (errtree + 'a) \<times> 'w) \<Rightarrow> errtree \<Rightarrow> bool" where
  "request_failed cl r ns lookup w request err \<longleftrightarrow>
     (\<exists>m. lookup = Inr m \<and> fst (request (interface_of cl r m ns) w) = Inl err \<and>
          \<not> cl_IsNotFound cl err)"

subsection \<open>Properties\<close>

text \<open>
  C40: Exactly which failures the resolver reports. A failed lookup of the kind is reported by resolving
  a reference always, but by listing and patching only if no error in its tree of causes says that
  the kind is unknown; in either case no request follows the lookup. A failed request, made on the
  interface of the kind (in the given namespace exactly for namespaced kinds), is reported by all
  three unless it says that the object is not found. So a patch of an unknown kind, or of an object
  that does not exist, counts as a success.
\<close>

theorem resolver_reports:
  assumes "toGVK ref = g" and "GVK po = g" and "ref_Namespace ref = ns" and "patch_Namespace po = ns"
    and "cl_RESTMapping cl (mapper r) (gvk_Group g, gvk_Kind g) (gvk_Version g) w = (lookup, w')"
  shows "(fst (resolver_List cl r g ns w) = Inl err \<longleftrightarrow>
            lookup = Inl err \<and> kind_known err \<or> request_failed cl r ns lookup w' (cl_List cl) err) \<and>
         (fst (ResolveReference cl toGVK r ref w) = Inl err \<longleftrightarrow>
            lookup = Inl err \<or>
            request_failed cl r ns lookup w' (\<lambda>dri. cl_Get cl dri (ref_Name ref)) err) \<and>
         (fst (resolver_Patch cl r po w) = Some err \<longleftrightarrow>
            lookup = Inl err \<and> kind_known err \<or>
            request_failed cl r ns lookup w'
              (\<lambda>dri. cl_Patch cl dri (patch_Name po) MergePatchType (PatchData po) ''krateo'') err) \<and>
         (\<forall>e. lookup = Inl e \<longrightarrow> snd (resolver_List cl r g ns w) = w' \<and>
            snd (ResolveReference cl toGVK r ref w) = w' \<and> snd (resolver_Patch cl r po w) = w')"
proof (cases lookup)
  case (Inl e)
  then show ?thesis using assms(1-5)
    by (auto simp: resolver_List_def resolver_Patch_def ResolveReference_def interface_unmapped
        isNoKindMatchError_def errors_As_iff request_failed_def kind_known_def)
next
  case (Inr m)
  then show ?thesis using assms(1-5)
    by (auto simp: resolver_List_def resolver_Patch_def ResolveReference_def interface_mapped
        request_failed_def split: sum.split prod.split)
qed

text \<open>A mapper that knows no kind and says so in a wrapped error; the world counts requests.\<close>

definition sample_client :: "(nat, nat) kube_client" where
  "sample_client =
     \<lparr>cl_RESTMapping = (\<lambda>m gk v w.
        (Inl (GoErr (PlainError ''wrap'') ''lookup'' [GoErr NoKindMatchError ''no match'' []]), w)),
      cl_Invalidate = (\<lambda>c w. w), cl_Resource = (\<lambda>d g. 0), cl_Namespace = (\<lambda>i ns. 1),
      cl_List = (\<lambda>i w. (Inr [], Suc w)), cl_Get = (\<lambda>i n w. (Inr \<lparr>Object = []\<rparr>, Suc w)),
      cl_Patch = (\<lambda>i n t d f w. (Inr \<lparr>Object = []\<rparr>, Suc w)), cl_IsNotFound = (\<lambda>e. False)\<rparr>"

definition sample_resolver :: ObjectResolver where
  "sample_resolver = \<lparr>dynamicClient = 1, discoveryClient = 2, mapper = 3, mapperCache = 4\<rparr>"

definition sample_gvk :: gvk where
  "sample_gvk = \<lparr>gvk_Group = ''g'', gvk_Version = ''v1'', gvk_Kind = ''K''\<rparr>"

definition sample_patch :: PatchOpts where
  "sample_patch = \<lparr>PatchData = ''{}'', GVK = sample_gvk, patch_Name = ''n'', patch_Namespace = ''ns''\<rparr>"

definition sample_ref :: ObjectReference where
  "sample_ref = \<lparr>ref_Kind = ''K'', ref_Namespace = ''ns'', ref_Name = ''n'', ref_APIVersion = ''g/v1''\<rparr>"

definition sample_no_match :: errtree where
  "sample_no_match = GoErr (PlainError ''wrap'') ''lookup'' [GoErr NoKindMatchError ''no match'' []]"

theorem resolver_reports_witness:
  "fst (resolver_Patch sample_client sample_resolver sample_patch 0) \<noteq> Some sample_no_match \<and>
   fst (ResolveReference sample_client (\<lambda>_. sample_gvk) sample_resolver sample_ref 0) =
     Inl sample_no_match \<and>
   snd (resolver_Patch sample_client sample_resolver sample_patch 0) = 0"
proof -
  have "cl_RESTMapping sample_client (mapper sample_resolver) (gvk_Group sample_gvk, gvk_Kind sample_gvk)
      (gvk_Version sample_gvk) 0 = (Inl sample_no_match, 0)"
    by (simp add: sample_client_def sample_no_match_def)
  from resolver_reports [of "\<lambda>_. sample_gvk" sample_ref, OF refl _ _ _ this, of sample_patch "''ns''"
      sample_no_match]
  show ?thesis
    by (simp add: sample_patch_def sample_ref_def request_failed_def kind_known_def sample_no_match_def)
qed

end
