(* ===== verification/Storage.thy ===== *)
theory Storage
  imports Router Batch SampleCluster Objects
begin

text \<open>
  \<^verbatim>\<open>internal/storage/\<close>: the subscriber that turns informer events into records, and the retired job
  that wrote core events to the database.

  The handler mutates the object of the event in place; the object is shared with the informer's
  cache, so the heap is part of the state. The job queue is the argument \<open>push\<close> on a state of any
  type; the two readings of the clock are arguments.
\<close>

subsection \<open>labels.go\<close>

definition keyCompositionID :: string where
  "keyCompositionID = ''krateo.io/composition-id''"

definition hasCompositionId :: "kube_api \<Rightarrow> unstructured \<Rightarrow> string \<times> bool" where
  "hasCompositionId api objUn =
     (let labels = GetLabels api objUn;
          (val, ok) = (if length labels > 0
                       then (case map_of labels keyCompositionID of
                               Some v \<Rightarrow> (v, True) | None \<Rightarrow> ([], False))
                       else ([], False))
      in if \<not> ok then (GetUID api objUn, True) else (val, ok))"

subsection \<open>storage.go\<close>

text \<open>
  \<^term>\<open>None\<close> is the nil record. The code drops the errors of json.Marshal; they arise for channels,
  functions, cyclic values and infinite or undefined numbers, none of which an object decoded from JSON
  has, and the type of the model's values has none of them either.
\<close>

definition buildRecord ::
  "kube_api \<Rightarrow> string \<Rightarrow> gotime \<Rightarrow> unstructured \<Rightarrow> string \<Rightarrow> string \<Rightarrow> InsertRecord option" where
  "buildRecord api cluster now obj compositionID resource =
     (case ParseGroupVersion api (GetAPIVersion api obj) of
        Inl err \<Rightarrow> None
      | Inr (grp, version) \<Rightarrow>
          (let raw = json_Marshal (JObj (Object obj));
               statusRaw = map_option json_Marshal (map_of (Object obj) ''status'')
           in Some
             \<lparr>CreatedAt = Some (GetCreationTimestamp api obj),
              UpdatedAt = Some now,
              DeletedAt = GetDeletionTimestamp api obj,
              ClusterName = cluster,
              UID = GetUID api obj,
              GlobalUID = cluster @ '':'' @ GetUID api obj,
              RecNamespace = GetNamespace api obj,
              ResourceGroup = grp,
              ResourceVersion = version,
              ResourceKind = GetKind api obj,
              ResourceName = GetName api obj,
              ResourcePlural = resource,
              CompositionID = compositionID,
              Raw = raw,
              StatusRaw = statusRaw\<rparr>))"

record 'q storage_state =
  objects :: oheap
  squeue :: 'q

text \<open>The switch on the event's operation.\<close>

definition mark_deletion :: "kube_api \<Rightarrow> gotime \<Rightarrow> Operation \<Rightarrow> unstructured \<Rightarrow> unstructured" where
  "mark_deletion api now op u =
     (case op of
        DELETE \<Rightarrow> if GetDeletionTimestamp api u = None then SetDeletionTimestamp api u (Some now) else u
      | _ \<Rightarrow> if GetDeletionTimestamp api u \<noteq> None then SetDeletionTimestamp api u None else u)"

definition storage_on_event ::
  "kube_api \<Rightarrow> string \<Rightarrow> ('q \<Rightarrow> InsertRecordJob \<Rightarrow> 'q) \<Rightarrow> gotime \<Rightarrow> gotime \<Rightarrow>
     'q storage_state \<Rightarrow> InformerEvent \<Rightarrow> 'q storage_state \<times> goerror option" where
  "storage_on_event api cluster push now now' s eI =
     (if EventTarget eI \<noteq> STORAGE then (s, None)
      else
        (let s = s\<lparr>objects := (objects s)(Obj eI := mark_deletion api now (EventType eI) (objects s (Obj eI)))\<rparr>;
             (compositionId, ok) = hasCompositionId api (objects s (Obj eI))
         in case buildRecord api cluster now' (objects s (Obj eI)) compositionId (EventResource eI) of
              None \<Rightarrow> (s, Some ''cannot store: error generating record'')
            | Some rec \<Rightarrow>
                (if UID rec = [] then (s, Some ''cannot store: UID is empty'')
                 else (s\<lparr>squeue := push (squeue s) \<lparr>Record = rec\<rparr>\<rparr>, None))))"

text \<open>
  \<^verbatim>\<open>NewManager\<close> fails exactly when the object resolver cannot be built. Bus, queue, database pool and
  record channel are handles.
\<close>

record 'c StorageOpts =
  so_RESTConfig :: 'c
  so_Eventbus :: handle
  so_Queue :: handle
  so_Pool :: handle
  so_RecordChan :: handle
  so_ClusterName :: string

record storage =
  sto_eventbus :: handle
  sto_objectResolver :: ObjectResolver
  sto_queue :: handle
  sto_pool :: handle
  sto_recordChan :: handle
  clusterName :: string

definition storage_NewManager ::
  "('c \<Rightarrow> errtree + handle) \<Rightarrow> ('c \<Rightarrow> errtree + handle) \<Rightarrow> (handle \<Rightarrow> handle) \<Rightarrow>
     (handle \<Rightarrow> handle) \<Rightarrow> 'c StorageOpts \<Rightarrow> errtree + storage" where
  "storage_NewManager newDynamic newDiscovery newMemCache newMapper opts =
     (case NewObjectResolver newDynamic newDiscovery newMemCache newMapper (so_RESTConfig opts) of
        Inl err \<Rightarrow> Inl err
      | Inr objectResolver \<Rightarrow>
          Inr \<lparr>sto_eventbus = so_Eventbus opts, sto_objectResolver = objectResolver,
               sto_queue = so_Queue opts, sto_pool = so_Pool opts,
               sto_recordChan = so_RecordChan opts, clusterName = so_ClusterName opts\<rparr>)"

definition storage_Run :: "sub_action list" where
  "storage_Run = [SubSubscribe ''informerevent'', SubAwaitStop, SubUnsubscribe]"

subsection \<open>job.go\<close>

record core_event =
  ev_UID :: string
  ev_ResourceVersion :: string
  ev_Name :: string
  ev_Namespace :: string
  ev_LastTimestamp :: gotime
  ev_InvolvedKind :: string
  ev_InvolvedName :: string
  ev_Type :: string
  ev_Reason :: string
  ev_Message :: string
  ev_Labels :: "(string, string) gomap"

definition insertJob_sql :: string where
  "insertJob_sql =
     strings_Join
       [[], ''INSERT INTO k8s_events ('', ''    cluster_name,'', ''    namespace,'',
        ''    resource_kind,'', ''    resource_name,'', ''    composition_id,'', ''    raw,'',
        ''    uid,'', ''    resource_version'', '') VALUES ('',
        ''    $1, $2, $3, $4, NULLIF($5, '' @ [CHR 0x27, CHR 0x27] @ ''), $6, $7, $8'', '')'',
        ''ON CONFLICT (uid, resource_version) DO NOTHING;'', []] [CHR 0x0A]"

definition insertJob_Job ::
  "(core_event \<Rightarrow> goerror + string) \<Rightarrow>
     ('db \<Rightarrow> string \<Rightarrow> sqlval list \<Rightarrow> 'db \<times> goerror option) \<Rightarrow> core_event \<Rightarrow> 'db \<Rightarrow> 'db" where
  "insertJob_Job marshal exec e d =
     (let uid = ev_UID e; rv = ev_ResourceVersion e in
      if uid = [] \<or> rv = [] then d
      else (case marshal e of
              Inl err \<Rightarrow> d
            | Inr raw \<Rightarrow>
                (let compositionId =
                       (if length (ev_Labels e) > 0
                        then (case map_of (ev_Labels e) keyCompositionID of Some v \<Rightarrow> v | None \<Rightarrow> [])
                        else [])
                 in fst (exec d insertJob_sql
                      [VTime (Some (ev_LastTimestamp e)), VStr ''MyCluster'', VStr (ev_Namespace e),
                       VStr (ev_InvolvedKind e), VStr (ev_InvolvedName e), VStr (ev_Type e),
                       VStr (ev_Reason e), VStr (ev_Message e), VStr compositionId,
                       VBytes (Some raw), VStr uid, VStr rv]))))"

text \<open>
  What the driver documents of \<^verbatim>\<open>Exec\<close>: a statement whose number of arguments differs from its number
  of parameters is refused and nothing is executed.
\<close>

definition arity_law ::
  "('db \<Rightarrow> string \<Rightarrow> sqlval list \<Rightarrow> 'db \<times> goerror option) \<Rightarrow> bool" where
  "arity_law exec \<longleftrightarrow>
     (\<forall>d sql vals. length vals \<noteq> count_list sql CHR ''$'' \<longrightarrow>
        fst (exec d sql vals) = d \<and> snd (exec d sql vals) \<noteq> None)"

text \<open>
  A record of an object, built at a time \<open>now\<close>: all fields but those that depend on the mark of a
  deletion (deletion time and JSON).
\<close>

definition record_of ::
  "kube_api \<Rightarrow> string \<Rightarrow> gotime \<Rightarrow> string \<Rightarrow> unstructured \<Rightarrow> InsertRecord \<Rightarrow> bool" where
  "record_of api cluster now resource u rec \<longleftrightarrow>
     UID rec = GetUID api u \<and> GlobalUID rec = cluster @ '':'' @ GetUID api u \<and>
     ClusterName rec = cluster \<and> RecNamespace rec = GetNamespace api u \<and>
     ResourceName rec = GetName api u \<and> ResourceKind rec = GetKind api u \<and>
     ParseGroupVersion api (GetAPIVersion api u) = Inr (ResourceGroup rec, ResourceVersion rec) \<and>
     ResourcePlural rec = resource \<and>
     CompositionID rec = (case map_of (GetLabels api u) keyCompositionID of
        Some v \<Rightarrow> v | None \<Rightarrow> GetUID api u) \<and>
     CreatedAt rec = Some (GetCreationTimestamp api u) \<and> UpdatedAt rec = Some now"

subsection \<open>Sample events\<close>

definition sample_time :: gotime where
  "sample_time = \<lparr>unixNano = 7, location = ''UTC''\<rparr>"

definition sample_storage_event :: "Operation \<Rightarrow> InformerEvent" where
  "sample_storage_event op =
     \<lparr>EventName = ''c'', EventType = op, EventTarget = STORAGE, Obj = 3, EventResource = ''things''\<rparr>"

definition sample_storage :: "unstructured \<Rightarrow> InsertRecordJob list storage_state" where
  "sample_storage u = \<lparr>objects = (\<lambda>_. \<lparr>Object = []\<rparr>)(3 := u), squeue = []\<rparr>"

definition dying_object :: unstructured where
  "dying_object = SetDeletionTimestamp sample_api
     (sample_object ''a.io/v1'' ''Thing'' ''ns'' ''c'' ''u1'') (Some sample_time)"

subsection \<open>Lemmas\<close>

interpretation sto_sub: bus_subscriber
    "\<lambda>s ev. fst (storage_on_event api cluster push now now' s ev)" STORAGE
  for api cluster push now now'
  by unfold_locales (simp add: storage_on_event_def)

lemma hasCompositionId_eq:
  "hasCompositionId api u =
     (case map_of (GetLabels api u) keyCompositionID of
        Some v \<Rightarrow> v | None \<Rightarrow> GetUID api u, True)"
  by (cases "GetLabels api u") (auto simp: hasCompositionId_def Let_def split: option.splits)

lemma mark_deletion_meta:
  assumes "deletion_law api"
  shows "GetUID api (mark_deletion api now op u) = GetUID api u"
    and "GetName api (mark_deletion api now op u) = GetName api u"
    and "GetNamespace api (mark_deletion api now op u) = GetNamespace api u"
    and "GetKind api (mark_deletion api now op u) = GetKind api u"
    and "GetAPIVersion api (mark_deletion api now op u) = GetAPIVersion api u"
    and "GetLabels api (mark_deletion api now op u) = GetLabels api u"
    and "GetCreationTimestamp api (mark_deletion api now op u) = GetCreationTimestamp api u"
    and "GetDeletionTimestamp api (mark_deletion api now op u) = None \<longleftrightarrow> op \<noteq> DELETE"
  using deletion_lawD [OF assms] by (auto simp: mark_deletion_def split: Operation.splits)

lemma mark_deletion_kept:
  "GetDeletionTimestamp api u \<noteq> None \<Longrightarrow> mark_deletion api now DELETE u = u"
  by (auto simp: mark_deletion_def)

lemmas storage_simps [go_simps] = storage_on_event_def buildRecord_def hasCompositionId_eq Let_def

lemma storage_stores:
  assumes "EventTarget ev = STORAGE"
    and "u = mark_deletion api now (EventType ev) (objects s (Obj ev))"
    and "ParseGroupVersion api (GetAPIVersion api u) = Inr (grp, version)" and "GetUID api u \<noteq> []"
  shows "\<exists>rec. storage_on_event api cluster push now now' s ev =
      (s\<lparr>objects := (objects s)(Obj ev := u), squeue := push (squeue s) \<lparr>Record = rec\<rparr>\<rparr>, None) \<and>
    buildRecord api cluster now' u (fst (hasCompositionId api u)) (EventResource ev) = Some rec"
  using assms by (simp add: go_simps split: option.split)

lemma buildRecord_record_of:
  "buildRecord api cluster now u (fst (hasCompositionId api u)) resource = Some rec \<Longrightarrow>
     record_of api cluster now resource u rec \<and> DeletedAt rec = GetDeletionTimestamp api u \<and>
     Raw rec = json_Marshal (JObj (Object u)) \<and>
     StatusRaw rec = map_option json_Marshal (map_of (Object u) ''status'')"
  by (auto simp: record_of_def go_simps split: sum.splits prod.splits)

lemma record_of_marked:
  "deletion_law api \<Longrightarrow>
     record_of api cluster now' r (mark_deletion api now op u) rec = record_of api cluster now' r u rec"
  by (simp add: record_of_def mark_deletion_meta split: option.split)

lemma storage_record:
  assumes "deletion_law api" and "EventTarget ev = STORAGE"
    and "ParseGroupVersion api (GetAPIVersion api (objects s (Obj ev))) = Inr (grp, version)"
    and "GetUID api (objects s (Obj ev)) \<noteq> []"
  shows "\<exists>rec s'. storage_on_event api cluster push now now' s ev = (s', None) \<and>
    squeue s' = push (squeue s) \<lparr>Record = rec\<rparr> \<and>
    objects s' = (objects s)(Obj ev := mark_deletion api now (EventType ev) (objects s (Obj ev))) \<and>
    record_of api cluster now' (EventResource ev) (objects s (Obj ev)) rec \<and>
    DeletedAt rec = GetDeletionTimestamp api (objects s' (Obj ev)) \<and>
    Raw rec = json_Marshal (JObj (Object (objects s' (Obj ev)))) \<and>
    StatusRaw rec = map_option json_Marshal (map_of (Object (objects s' (Obj ev))) ''status'') \<and>
    (DeletedAt rec = None \<longleftrightarrow> EventType ev \<noteq> DELETE) \<and>
    (EventType ev = DELETE \<and> GetDeletionTimestamp api (objects s (Obj ev)) \<noteq> None \<longrightarrow>
       DeletedAt rec = GetDeletionTimestamp api (objects s (Obj ev)))"
proof -
  let ?u = "mark_deletion api now (EventType ev) (objects s (Obj ev))"
  obtain rec where rec: "storage_on_event api cluster push now now' s ev =
      (s\<lparr>objects := (objects s)(Obj ev := ?u), squeue := push (squeue s) \<lparr>Record = rec\<rparr>\<rparr>, None)"
    "buildRecord api cluster now' ?u (fst (hasCompositionId api ?u)) (EventResource ev) = Some rec"
    using storage_stores [OF assms(2) refl] assms(3,4) mark_deletion_meta [OF assms(1)] by metis
  from buildRecord_record_of [OF rec(2)] show ?thesis
    using rec(1) mark_deletion_meta(8) [OF assms(1)] mark_deletion_kept record_of_marked [OF assms(1)]
    by (intro exI [of _ rec] exI conjI) (auto simp del: json_Marshal.simps)
qed

lemma insertJob_sql_params: "count_list insertJob_sql CHR ''$'' = 8"
  by (simp add: insertJob_sql_def)

lemma append_colon_inj:
  "CHR '':'' \<notin> set a \<Longrightarrow> CHR '':'' \<notin> set b \<Longrightarrow> a @ CHR '':'' # x = b @ CHR '':'' # y \<Longrightarrow> a = b \<and> x = y"
  by (induction a arbitrary: b) (auto simp: Cons_eq_append_conv append_eq_Cons_conv)

text \<open>What every record that storage pushes satisfies, whatever the object was.\<close>

definition record_ok :: "string \<Rightarrow> InsertRecord \<Rightarrow> bool" where
  "record_ok cluster rec \<longleftrightarrow>
     timed rec \<and> UID rec \<noteq> [] \<and> ClusterName rec = cluster \<and> GlobalUID rec = cluster @ '':'' @ UID rec"

lemma buildRecord_ok:
  "buildRecord api cluster now u cid resource = Some rec \<Longrightarrow> UID rec \<noteq> [] \<Longrightarrow> record_ok cluster rec"
  by (auto simp: buildRecord_def record_ok_def timed_def Let_def split: sum.splits)

lemma storage_pushes_ok:
  assumes "storage_on_event api cluster push now now' s ev = (s', err)"
  shows "squeue s' = squeue s \<or> (\<exists>rec. record_ok cluster rec \<and> squeue s' = push (squeue s) \<lparr>Record = rec\<rparr>)"
  using assms buildRecord_ok
  by (fastforce simp: storage_on_event_def Let_def split: if_splits option.splits prod.splits)

text \<open>Storage over a sequence of events, each with its two readings of the clock.\<close>

definition storage_run ::
  "kube_api \<Rightarrow> string \<Rightarrow> ('q \<Rightarrow> InsertRecordJob \<Rightarrow> 'q) \<Rightarrow> 'q storage_state \<Rightarrow>
     (gotime \<times> gotime \<times> InformerEvent) list \<Rightarrow> 'q storage_state" where
  "storage_run api cluster push s evs =
     run_all (\<lambda>s (now, now', ev). fst (storage_on_event api cluster push now now' s ev)) s evs"

lemma storage_run_ok:
  assumes "\<forall>j \<in> set (squeue s). record_ok cluster (Record j)"
  shows "\<forall>j \<in> set (squeue (storage_run api cluster (\<lambda>q j. q @ [j]) s evs)). record_ok cluster (Record j)"
  unfolding storage_run_def
proof (rule run_all_invariant)
  fix s :: "InsertRecordJob list storage_state" and e :: "gotime \<times> gotime \<times> InformerEvent"
  assume inv: "\<forall>j \<in> set (squeue s). record_ok cluster (Record j)"
  obtain now now' ev where e: "e = (now, now', ev)" by (cases e)
  obtain s' err where s': "storage_on_event api cluster (\<lambda>q j. q @ [j]) now now' s ev = (s', err)" by force
  show "\<forall>j \<in> set (squeue ((\<lambda>s (now, now', ev).
      fst (storage_on_event api cluster (\<lambda>q j. q @ [j]) now now' s ev)) s e)). record_ok cluster (Record j)"
    using storage_pushes_ok [OF s'] inv by (auto simp: e s')
qed (rule assms)

subsection \<open>Properties\<close>

text \<open>
  C15: What storage does with a storable event (its object has an identifier and a well-formed API
  version): it pushes exactly one job, whose record carries the object's identity, the composition
  label or else the identifier, the object's JSON and that of its status, the creation time of the
  object and the time of the handling as update time; it has a deletion time exactly when the event is
  a DELETE, and then the object's own one if it had any; and the object itself, which the informer's
  cache shares, is left changed in the same way, no other object is.
\<close>

theorem storage_pushes_record:
  assumes "deletion_law api" and "EventTarget ev = STORAGE"
    and "ParseGroupVersion api (GetAPIVersion api (objects s (Obj ev))) = Inr (grp, version)"
    and "GetUID api (objects s (Obj ev)) \<noteq> []"
  shows "\<exists>rec s'. storage_on_event api cluster push now now' s ev = (s', None) \<and>
    squeue s' = push (squeue s) \<lparr>Record = rec\<rparr> \<and>
    objects s' = (objects s)(Obj ev := mark_deletion api now (EventType ev) (objects s (Obj ev))) \<and>
    record_of api cluster now' (EventResource ev) (objects s (Obj ev)) rec \<and>
    DeletedAt rec = GetDeletionTimestamp api (objects s' (Obj ev)) \<and>
    Raw rec = json_Marshal (JObj (Object (objects s' (Obj ev)))) \<and>
    StatusRaw rec = map_option json_Marshal (map_of (Object (objects s' (Obj ev))) ''status'') \<and>
    (DeletedAt rec = None \<longleftrightarrow> EventType ev \<noteq> DELETE) \<and>
    (EventType ev = DELETE \<and> GetDeletionTimestamp api (objects s (Obj ev)) \<noteq> None \<longrightarrow>
       DeletedAt rec = GetDeletionTimestamp api (objects s (Obj ev)))"
  using assms by (rule storage_record)

lemmas sample_storage_defs = sample_storage_event_def sample_storage_def sample_time_def

theorem storage_pushes_record_witness:
  "\<exists>rec s'. storage_on_event sample_api ''k1'' (\<lambda>q j. q @ [j]) sample_time sample_time
      (sample_storage (sample_object ''a.io/v1'' ''Thing'' ''ns'' ''c'' ''u1'')) (sample_storage_event DELETE) =
      (s', None) \<and> squeue s' = [\<lparr>Record = rec\<rparr>] \<and> DeletedAt rec \<noteq> None"
proof -
  let ?s = "sample_storage (sample_object ''a.io/v1'' ''Thing'' ''ns'' ''c'' ''u1'')"
  have "ParseGroupVersion sample_api (GetAPIVersion sample_api (objects ?s (Obj (sample_storage_event DELETE)))) =
      Inr (''a.io'', ''v1'')" "EventTarget (sample_storage_event DELETE) = STORAGE"
    "GetUID sample_api (objects ?s (Obj (sample_storage_event DELETE))) \<noteq> []"
    by (simp_all add: sample_storage_defs sample_defs)
  from storage_pushes_record [OF sample_deletion_law this(2,1,3), where push = "\<lambda>q j. q @ [j]"]
  show ?thesis by (fastforce simp: sample_storage_defs)
qed

text \<open>
  C10: Records are well formed by construction, so the batch worker never dereferences nil. Whatever
  objects, clock readings and sequence of events storage handles, every record it pushes has a
  creation and an update time, a non-empty identifier, the cluster's name and the global identifier
  made of the two; and a batch worker that receives such records, in any order and batches, with any
  database, does not panic.
\<close>

theorem storage_records_safe:
  assumes "squeue s = []" and "\<forall>n. any_order (ord n)" and "buffer (worker b) = []"
    and "\<forall>r. Recv r \<in> set evs \<longrightarrow>
      \<lparr>Record = r\<rparr> \<in> set (squeue (storage_run api cluster (\<lambda>q j. q @ [j]) s ievs))"
  shows "(\<forall>j \<in> set (squeue (storage_run api cluster (\<lambda>q j. q @ [j]) s ievs)). record_ok cluster (Record j)) \<and>
    (\<exists>b'. batch_run exec ord dur b evs = Ok b')"
proof -
  have ok: "\<forall>j \<in> set (squeue (storage_run api cluster (\<lambda>q j. q @ [j]) s ievs)). record_ok cluster (Record j)"
    by (rule storage_run_ok) (simp add: assms(1))
  then have "\<forall>r. Recv r \<in> set evs \<longrightarrow> timed r" using assms(4) by (force simp: record_ok_def)
  then show ?thesis using ok batch_run_total [OF assms(2), of b evs exec dur] assms(3) by simp
qed

theorem storage_records_safe_witness:
  "\<exists>rec b'. squeue (storage_run sample_api ''k1'' (\<lambda>q j. q @ [j])
      (sample_storage (sample_object ''a.io/v1'' ''Thing'' ''ns'' ''c'' ''u1''))
      [(sample_time, sample_time, sample_storage_event DELETE)]) = [\<lparr>Record = rec\<rparr>] \<and>
     record_ok ''k1'' rec \<and>
     batch_run (logging (\<lambda>_. None)) (\<lambda>_ m. m) (\<lambda>_. 0) (batch_init (sample_worker []) None) [Recv rec, Tick] = Ok b'"
proof -
  let ?s = "sample_storage (sample_object ''a.io/v1'' ''Thing'' ''ns'' ''c'' ''u1'')"
  let ?run = "storage_run sample_api ''k1'' (\<lambda>q j. q @ [j]) ?s
      [(sample_time, sample_time, sample_storage_event DELETE)]"
  have "ParseGroupVersion sample_api (GetAPIVersion sample_api (objects ?s (Obj (sample_storage_event DELETE)))) =
      Inr (''a.io'', ''v1'')" "EventTarget (sample_storage_event DELETE) = STORAGE"
    "GetUID sample_api (objects ?s (Obj (sample_storage_event DELETE))) \<noteq> []"
    by (simp_all add: sample_storage_defs sample_defs)
  from storage_record [OF sample_deletion_law this(2,1,3), where push = "\<lambda>q j. q @ [j]"]
  obtain rec s' where "storage_on_event sample_api ''k1'' (\<lambda>q j. q @ [j]) sample_time sample_time ?s
      (sample_storage_event DELETE) = (s', None)" "squeue s' = squeue ?s @ [\<lparr>Record = rec\<rparr>]"
    by blast
  then have rec: "squeue ?run = [\<lparr>Record = rec\<rparr>]" by (simp add: storage_run_def sample_storage_def)
  have "squeue ?s = []" "buffer (worker (batch_init (sample_worker []) None)) = []"
    by (simp_all add: sample_storage_def batch_init_def sample_worker_def)
  from storage_records_safe [where ord = "\<lambda>_ m. m", OF this(1) allI [OF any_order_id] this(2),
      of "[Recv rec, Tick]" sample_api "''k1''" "[(sample_time, sample_time, sample_storage_event DELETE)]"
      "logging (\<lambda>_. None)" "\<lambda>_. 0"] rec
  show ?thesis by auto
qed

text \<open>
  What storage refuses: an object whose API version does not parse, or without an identifier. It
  reports the error and pushes nothing; its mark on the shared object stays all the same.
\<close>

theorem storage_refuses:
  assumes "deletion_law api" and "EventTarget ev = STORAGE"
    and "isl (ParseGroupVersion api (GetAPIVersion api (objects s (Obj ev)))) \<or>
      GetUID api (objects s (Obj ev)) = []"
  shows "storage_on_event api cluster push now now' s ev =
    (s\<lparr>objects := (objects s)(Obj ev := mark_deletion api now (EventType ev) (objects s (Obj ev)))\<rparr>,
     Some (if isl (ParseGroupVersion api (GetAPIVersion api (objects s (Obj ev))))
           then ''cannot store: error generating record'' else ''cannot store: UID is empty''))"
  using assms mark_deletion_meta [OF assms(1)] by (auto simp: go_simps split: sum.splits)

theorem storage_refuses_witness:
  "snd (storage_on_event sample_api ''k1'' (\<lambda>q j. q @ [j]) sample_time sample_time
     (sample_storage (sample_object ''a.io/v1'' ''Thing'' ''ns'' ''c'' [])) (sample_storage_event UPDATE)) =
   Some ''cannot store: UID is empty''"
proof -
  let ?s = "sample_storage (sample_object ''a.io/v1'' ''Thing'' ''ns'' ''c'' [])"
  have "EventTarget (sample_storage_event UPDATE) = STORAGE"
    "isl (ParseGroupVersion sample_api (GetAPIVersion sample_api (objects ?s (Obj (sample_storage_event UPDATE))))) \<or>
      GetUID sample_api (objects ?s (Obj (sample_storage_event UPDATE))) = []"
    "\<not> isl (ParseGroupVersion sample_api (GetAPIVersion sample_api (objects ?s (Obj (sample_storage_event UPDATE)))))"
    by (simp_all add: sample_storage_defs sample_defs)
  from storage_refuses [OF sample_deletion_law this(1,2)] this(3) show ?thesis by simp
qed

text \<open>
  C35: An UPDATE loses the deletion time of the shared object: after an object that is being deleted
  has been stored by an UPDATE event, every later reader of the informer's cache sees it as not being
  deleted, and the next event for it, if an UPDATE again, leaves it as it is.
\<close>

theorem storage_clears_cached_deletion:
  assumes "deletion_law api" and "EventTarget ev = STORAGE" and "EventType ev = UPDATE"
    and "GetDeletionTimestamp api (objects s (Obj ev)) \<noteq> None"
  shows "(let s' = fst (storage_on_event api cluster push now now' s ev) in
      GetDeletionTimestamp api (objects s' (Obj ev)) = None \<and> objects s' \<noteq> objects s \<and>
      objects (fst (storage_on_event api cluster push now now' s' ev)) = objects s')"
proof -
  let ?u = "mark_deletion api now UPDATE (objects s (Obj ev))"
  have obj: "objects (fst (storage_on_event api cluster push now now' t ev)) =
      (objects t)(Obj ev := mark_deletion api now UPDATE (objects t (Obj ev)))" for t
    using assms(2,3) by (auto simp: go_simps split: sum.splits)
  have del: "GetDeletionTimestamp api ?u = None" using mark_deletion_meta(8) [OF assms(1)] by simp
  moreover have "mark_deletion api now UPDATE ?u = ?u" using del by (simp add: mark_deletion_def [of _ _ _ ?u])
  moreover have "(objects s)(Obj ev := ?u) \<noteq> objects s" using del assms(4) by (metis fun_upd_same)
  ultimately show ?thesis by (simp add: Let_def obj)
qed

theorem storage_clears_cached_deletion_witness:
  "GetDeletionTimestamp sample_api dying_object \<noteq> None \<and>
   GetDeletionTimestamp sample_api (objects (fst (storage_on_event sample_api ''k1'' (\<lambda>q j. q @ [j])
     sample_time sample_time (sample_storage dying_object) (sample_storage_event UPDATE))) 3) = None"
proof -
  have d: "GetDeletionTimestamp sample_api dying_object \<noteq> None"
    by (simp add: dying_object_def deletion_lawD [OF sample_deletion_law])
  have "EventTarget (sample_storage_event UPDATE) = STORAGE" "EventType (sample_storage_event UPDATE) = UPDATE"
    "GetDeletionTimestamp sample_api (objects (sample_storage dying_object) (Obj (sample_storage_event UPDATE))) \<noteq> None"
    using d by (simp_all add: sample_storage_event_def sample_storage_def)
  from storage_clears_cached_deletion [OF sample_deletion_law this, of "''k1''" "\<lambda>q j. q @ [j]"
      sample_time sample_time] show ?thesis
    using d by (simp add: Let_def sample_storage_event_def)
qed

text \<open>
  The global identifier, which is the conflict key of the database table, separates clusters and
  objects: for cluster names without a colon, two records have the same one only when cluster and
  object identifier agree.
\<close>

theorem GlobalUID_inj:
  assumes "buildRecord api c now u cid r = Some rec" and "buildRecord api' c' now' u' cid' r' = Some rec'"
    and "CHR '':'' \<notin> set c" and "CHR '':'' \<notin> set c'"
  shows "GlobalUID rec = GlobalUID rec' \<longleftrightarrow> c = c' \<and> GetUID api u = GetUID api' u'"
proof -
  have "GlobalUID rec = c @ CHR '':'' # GetUID api u" "GlobalUID rec' = c' @ CHR '':'' # GetUID api' u'"
    using assms(1,2) by (auto simp: go_simps split: sum.splits prod.splits)
  then show ?thesis using append_colon_inj [OF assms(3,4)] by auto
qed

theorem GlobalUID_inj_witness:
  "\<exists>rec rec'. buildRecord sample_api ''k1'' sample_time
       (sample_object ''a.io/v1'' ''Thing'' ''ns'' ''c'' ''u1'') [] [] = Some rec \<and>
     buildRecord sample_api ''k2'' sample_time
       (sample_object ''a.io/v1'' ''Thing'' ''ns'' ''c'' ''u1'') [] [] = Some rec' \<and>
     GlobalUID rec \<noteq> GlobalUID rec'"
proof -
  let ?u = "sample_object ''a.io/v1'' ''Thing'' ''ns'' ''c'' ''u1''"
  have "ParseGroupVersion sample_api (GetAPIVersion sample_api ?u) = Inr (''a.io'', ''v1'')"
    by (simp add: sample_defs)
  then obtain rec rec' where r: "buildRecord sample_api ''k1'' sample_time ?u [] [] = Some rec"
    "buildRecord sample_api ''k2'' sample_time ?u [] [] = Some rec'"
    by (simp add: buildRecord_def)
  then show ?thesis using GlobalUID_inj [OF r] by auto
qed

text \<open>
  The retired job for core events can never write: its statement has eight parameters and it
  passes twelve arguments, so a driver that checks the count refuses every call and the database
  stays as it is.
\<close>

theorem insertJob_never_writes:
  assumes "arity_law exec"
  shows "insertJob_Job marshal exec e d = d"
  using assms
  by (auto simp: insertJob_Job_def arity_law_def insertJob_sql_params Let_def split: sum.splits)

theorem insertJob_never_writes_witness:
  "insertJob_Job (\<lambda>e. Inr ''{}'')
     (\<lambda>d sql vals. if length vals = count_list sql CHR ''$'' then (d + 1, None) else (d, Some ''arity''))
     \<lparr>ev_UID = ''u'', ev_ResourceVersion = ''1'', ev_Name = ''e'', ev_Namespace = ''ns'',
      ev_LastTimestamp = sample_time, ev_InvolvedKind = ''Pod'', ev_InvolvedName = ''p'',
      ev_Type = ''Normal'', ev_Reason = ''r'', ev_Message = ''m'', ev_Labels = []\<rparr> (5::nat) = 5"
  by (rule insertJob_never_writes) (simp add: arity_law_def)

end
