(* ===== verification/WorkPool.thy ===== *)
theory WorkPool
  imports Router
begin

text \<open>
  \<^verbatim>\<open>internal/router/workpool.go\<close> and \<^verbatim>\<open>NewStaticRouters\<close> of \<^verbatim>\<open>helpers.go\<close>: the worker pool that takes
  items off the shared queue, finds the informer responsible for the key, and hands the object to
  the event handler.

  The rate-limited work queue of client-go is a record of operations on an arbitrary state; an
  informer's store is the argument \<open>store\<close>.
\<close>

subsection \<open>The shared queue\<close>

datatype rate_limiter =
    ItemExponentialFailure int int
  | DefaultController

text \<open>Durations are in nanoseconds; \<^verbatim>\<open>5 * time.Minute\<close> is \<open>300 * 10 ^ 9\<close>.\<close>

definition NewSharedQueue :: "int \<Rightarrow> rate_limiter" where
  "NewSharedQueue throttlePeriod =
     (if throttlePeriod > 0 then ItemExponentialFailure throttlePeriod (300 * 10 ^ 9)
      else DefaultController)"

text \<open>
  \<^verbatim>\<open>Get\<close> is \<^term>\<open>None\<close> while it would block, and delivers \<^term>\<open>None\<close> for an item when the queue is
  shut down.
\<close>

record 'q workqueue =
  wq_Get :: "'q \<Rightarrow> (QueueItem option \<times> 'q) option"
  wq_Done :: "'q \<Rightarrow> QueueItem \<Rightarrow> 'q"
  wq_AddRateLimited :: "'q \<Rightarrow> QueueItem \<Rightarrow> 'q"
  wq_Forget :: "'q \<Rightarrow> QueueItem \<Rightarrow> 'q"
  wq_NumRequeues :: "'q \<Rightarrow> QueueItem \<Rightarrow> nat"
  wq_Add :: "'q \<Rightarrow> QueueItem \<Rightarrow> 'q"
  wq_ShutDown :: "'q \<Rightarrow> 'q"

text \<open>
  Requeue counting as documented: \<^verbatim>\<open>AddRateLimited\<close> counts one requeue of the item, \<^verbatim>\<open>Forget\<close> clears
  the count, \<^verbatim>\<open>Done\<close> leaves it.
\<close>

definition requeue_law :: "'q workqueue \<Rightarrow> bool" where
  "requeue_law wq \<longleftrightarrow>
     (\<forall>q i. wq_NumRequeues wq (wq_AddRateLimited wq q i) i = Suc (wq_NumRequeues wq q i)) \<and>
     (\<forall>q i. wq_NumRequeues wq (wq_Forget wq q i) i = 0) \<and>
     (\<forall>q i j. wq_NumRequeues wq (wq_Done wq q j) i = wq_NumRequeues wq q i)"

subsection \<open>Reconciliation\<close>

definition find_informer :: "informer_table \<Rightarrow> gvr \<Rightarrow> string \<Rightarrow> string \<Rightarrow> informer option" where
  "find_informer infs g k ns =
     (case map_of infs (getInformerKey g k ns) of
        Some ifm \<Rightarrow> Some ifm
      | None \<Rightarrow> map_of infs (getInformerKey g k []))"

definition reconcile ::
  "kube_api \<Rightarrow> (oheap \<Rightarrow> objref option \<Rightarrow> Operation \<Rightarrow> Target \<Rightarrow> string \<Rightarrow> InformerEvent list) \<Rightarrow>
     (informer \<Rightarrow> string \<Rightarrow> goerror + anyobj option) \<Rightarrow> oheap \<Rightarrow> informer_table \<Rightarrow> QueueItem \<Rightarrow>
     InformerEvent list outcome" where
  "reconcile api handle store h infs item =
     bind_outcome (splitKey api (Key item)) (\<lambda>(g, v, r, k, ns, n).
       case ItemObject item of
         Some obj \<Rightarrow> Ok (handle h (Some obj) DELETE STORAGE r)
       | None \<Rightarrow>
           (let target = (if g = ''apiextensions.k8s.io'' then MANAGER else STORAGE);
                gv = \<lparr>Group = g, Version = v, Resource = r\<rparr>
            in case find_informer infs gv k ns of
                 None \<Rightarrow> Err (''no informer for '' @ gvr_String api gv @ '' in namespace '' @
                              [CHR 0x22] @ ns @ [CHR 0x22])
               | Some ifm \<Rightarrow>
                   (case store ifm (getObjectKey ns n) of
                      Inl err \<Rightarrow> Err err
                    | Inr None \<Rightarrow> Ok []
                    | Inr (Some obj) \<Rightarrow>
                        (case obj of
                           AnyUnstructured un \<Rightarrow> Ok (handle h (Some un) UPDATE target r)
                         | _ \<Rightarrow> Panic ''interface conversion''))))"

text \<open>
  What \<^verbatim>\<open>processNext\<close> does once \<^verbatim>\<open>Get\<close> has returned an item and \<^verbatim>\<open>reconcile\<close> has run: the deferred
  \<^verbatim>\<open>Done\<close> is the last queue operation on every path. The flag says whether the item was dispatched.
\<close>

definition settle_item :: "'q workqueue \<Rightarrow> 'q \<Rightarrow> QueueItem \<Rightarrow> bool \<Rightarrow> 'q" where
  "settle_item wq q item failed =
     (if failed
      then (if wq_NumRequeues wq q item < 5
            then wq_Done wq (wq_AddRateLimited wq q item) item
            else wq_Done wq (wq_Forget wq q item) item)
      else wq_Done wq (wq_Forget wq q item) item)"

definition process_item ::
  "kube_api \<Rightarrow> (oheap \<Rightarrow> objref option \<Rightarrow> Operation \<Rightarrow> Target \<Rightarrow> string \<Rightarrow> InformerEvent list) \<Rightarrow>
     (informer \<Rightarrow> string \<Rightarrow> goerror + anyobj option) \<Rightarrow> 'q workqueue \<Rightarrow> oheap \<Rightarrow> informer_table \<Rightarrow>
     'q \<Rightarrow> Metrics option \<Rightarrow> QueueItem \<Rightarrow> ('q \<times> Metrics option \<times> InformerEvent list) outcome" where
  "process_item api handle store wq h infs q m item =
     (case reconcile api handle store h infs item of
        Panic e \<Rightarrow> Panic e
      | Err err \<Rightarrow> Ok (settle_item wq q item True, m, [])
      | Ok evs \<Rightarrow> Ok (settle_item wq q item False, IncResourcesDispatched m, evs))"

definition processNext ::
  "kube_api \<Rightarrow> (oheap \<Rightarrow> objref option \<Rightarrow> Operation \<Rightarrow> Target \<Rightarrow> string \<Rightarrow> InformerEvent list) \<Rightarrow>
     (informer \<Rightarrow> string \<Rightarrow> goerror + anyobj option) \<Rightarrow> 'q workqueue \<Rightarrow> oheap \<Rightarrow> informer_table \<Rightarrow>
     'q \<Rightarrow> Metrics option \<Rightarrow>
     (bool \<times> 'q \<times> Metrics option \<times> InformerEvent list) outcome option" where
  "processNext api handle store wq h infs q m =
     (case wq_Get wq q of
        None \<Rightarrow> None
      | Some (None, q) \<Rightarrow> Some (Ok (False, q, m, []))
      | Some (Some item, q) \<Rightarrow>
          Some (bind_outcome (process_item api handle store wq h infs q m item)
                  (\<lambda>(q, m, evs). Ok (True, q, m, evs))))"

text \<open>
  \<^verbatim>\<open>runWorker\<close> repeats \<^verbatim>\<open>processNext\<close> until it returns false. The list gives the heap at each turn
  (other goroutines run between turns); the worker has stopped when the flag is false.
\<close>

fun runWorker ::
  "kube_api \<Rightarrow> (oheap \<Rightarrow> objref option \<Rightarrow> Operation \<Rightarrow> Target \<Rightarrow> string \<Rightarrow> InformerEvent list) \<Rightarrow>
     (informer \<Rightarrow> string \<Rightarrow> goerror + anyobj option) \<Rightarrow> 'q workqueue \<Rightarrow> informer_table \<Rightarrow>
     oheap list \<Rightarrow> 'q \<Rightarrow> Metrics option \<Rightarrow>
     (bool \<times> 'q \<times> Metrics option \<times> InformerEvent list) outcome" where
  "runWorker api handle store wq infs [] q m = Ok (True, q, m, [])"
| "runWorker api handle store wq infs (h # hs) q m =
     (case processNext api handle store wq h infs q m of
        None \<Rightarrow> runWorker api handle store wq infs hs q m
      | Some (Panic e) \<Rightarrow> Panic e
      | Some (Err e) \<Rightarrow> Err e
      | Some (Ok (cont, q, m, evs)) \<Rightarrow>
          (if \<not> cont then Ok (False, q, m, evs)
           else bind_outcome (runWorker api handle store wq infs hs q m) (\<lambda>(f, q, m, evs').
                  Ok (f, q, m, evs @ evs'))))"

subsection \<open>Static routers\<close>

text \<open>
  One router per row, built with a nil pool; its informers are then registered one by one (the
  table by namespace has a single entry, so that the order of the range over it does not matter),
  and the router is started. A missing map key reads as the empty string.
\<close>

definition row_field :: "(string, string) gomap \<Rightarrow> string \<Rightarrow> string" where
  "row_field mp k = (case map_of mp k of None \<Rightarrow> [] | Some v \<Rightarrow> v)"

fun static_router_loop ::
  "(gvr \<Rightarrow> string \<Rightarrow> informer) \<Rightarrow> (string, string) gomap list \<Rightarrow> informer_table \<Rightarrow> Router list \<Rightarrow>
     (informer_table \<times> Router list) outcome" where
  "static_router_loop mkInf [] infs started = Ok (infs, started)"
| "static_router_loop mkInf (mp # rows) infs started =
     (let gv = \<lparr>Group = row_field mp ''group'', Version = row_field mp ''version'',
                Resource = row_field mp ''resource''\<rparr>;
          k = row_field mp ''kind'';
          r = fst (NewRouter mkInf \<lparr>opt_Namespaces = [], opt_Gvr = gv, opt_Kind = k\<rparr> None)
      in bind_outcome (InformersByNamespace r) (\<lambda>byns.
           static_router_loop mkInf rows
             (foldl (\<lambda>t (ns, ifm). RegisterInformer t gv ns k ifm) infs byns) (started @ [r])))"

definition NewStaticRouters ::
  "(gvr \<Rightarrow> string \<Rightarrow> informer) \<Rightarrow> string \<Rightarrow> informer_table \<Rightarrow>
     (informer_table \<times> Router list) outcome" where
  "NewStaticRouters mkInf statics infs = static_router_loop mkInf (getRoutersFromStatic statics) infs []"

subsection \<open>Lemmas\<close>

lemma getObjectKey_meta_key: "getObjectKey ns n = meta_key ns n"
  by (simp add: getObjectKey_def meta_key_def)

text \<open>What any handler that meets the contract is asked to publish.\<close>

context event_handler
begin

lemma reconcile_publishes:
  assumes "reconcile api handle store h infs item = Ok evs"
  shows "length evs \<le> 1"
    and "ItemObject item = Some p \<Longrightarrow>
           \<exists>ev. evs = [ev] \<and> Obj ev = p \<and> EventType ev = DELETE \<and> EventTarget ev = STORAGE"
    and "ItemObject item = None \<Longrightarrow> ev \<in> set evs \<Longrightarrow> EventType ev = UPDATE"
proof -
  obtain g v r k ns n where sk: "splitKey api (Key item) = Ok (g, v, r, k, ns, n)"
    using assms by (cases "splitKey api (Key item)") (auto simp: reconcile_def)
  note unf = assms[unfolded reconcile_def sk bind_outcome.simps prod.case Let_def]
  show "ItemObject item = Some p \<Longrightarrow>
      \<exists>ev. evs = [ev] \<and> Obj ev = p \<and> EventType ev = DELETE \<and> EventTarget ev = STORAGE"
    using unf handle_some [of h p DELETE STORAGE r] by auto
  show "length evs \<le> 1"
    using unf handle_length
    by (force split: option.splits sum.splits anyobj.splits)
  show "ItemObject item = None \<Longrightarrow> ev \<in> set evs \<Longrightarrow> EventType ev = UPDATE"
    using unf
    by (auto split: option.splits sum.splits anyobj.splits dest: handle_events)
qed

lemma reconcile_current:
  assumes "meta_key_law api" "obj_clean api (h p)" "gvr_clean g" "key_clean k"
    and "buildKey api g k (h p) = Inr key"
    and "find_informer infs g k (GetNamespace api (h p)) = Some ifm"
    and "store ifm (meta_key (GetNamespace api (h p)) (GetName api (h p))) =
           Inr (Some (AnyUnstructured un))"
  shows "\<exists>ev. reconcile api handle store h infs \<lparr>Key = key, ItemObject = None\<rparr> = Ok [ev] \<and>
           Obj ev = un \<and> EventType ev = UPDATE \<and> EventResource ev = Resource g \<and>
           EventTarget ev = (if Group g = ''apiextensions.k8s.io'' then MANAGER else STORAGE)"
proof -
  from assms(5) obtain mk where mk: "MetaNamespaceKeyFunc api (h p) = Inr mk"
    and key: "key = Group g @ ''/'' @ Version g @ ''/'' @ Resource g @ ''/'' @ k @ ''|'' @ mk"
    by (auto simp: buildKey_def split: sum.splits)
  have sk: "splitKey api key =
      Ok (Group g, Version g, Resource g, k, GetNamespace api (h p), GetName api (h p))"
    unfolding key using assms(3,4) meta_key_lawD [OF assms(1,2) mk] by (rule splitKey_of_parts)
  have fi: "find_informer infs \<lparr>Group = Group g, Version = Version g, Resource = Resource g\<rparr> k
      (GetNamespace api (h p)) = Some ifm"
    using assms(6) by simp
  let ?tg = "if Group g = ''apiextensions.k8s.io'' then MANAGER else STORAGE"
  have "reconcile api handle store h infs \<lparr>Key = key, ItemObject = None\<rparr> =
      Ok (handle h (Some un) UPDATE ?tg (Resource g))"
    unfolding reconcile_def
    by (simp only: QueueItem.select_convs sk bind_outcome.simps prod.case option.case Let_def fi
        getObjectKey_meta_key assms(7) sum.case anyobj.case)
  then show ?thesis using handle_some [of h un UPDATE ?tg "Resource g"] by auto
qed

end

lemma find_informer_registered:
  assumes "gvr_clean g" "key_clean k" and "ns \<in> set nss \<or> [] \<in> set nss"
    and "ns \<notin> set nss \<Longrightarrow> map_of t (getInformerKey g k ns) = None"
  shows "find_informer (foldl (\<lambda>t ns. RegisterInformer t g ns k (mkInf ns)) t nss) g k ns =
           Some (mkInf (if ns \<in> set nss then ns else []))"
  using assms by (auto simp: find_informer_def RegisterInformer_fold_lookup)

lemma static_router_loop_Cons:
  "static_router_loop mkInf (mp # rows) infs started =
     (let gv = \<lparr>Group = row_field mp ''group'', Version = row_field mp ''version'',
                Resource = row_field mp ''resource''\<rparr>
      in static_router_loop mkInf rows
           (RegisterInformer infs gv [] (row_field mp ''kind'') (mkInf gv []))
           (started @ [\<lparr>informers = [mkInf gv []], namespaces = [[]], Gvr = gv,
                        kind = row_field mp ''kind''\<rparr>]))"
  by (simp add: NewRouter_eq InformersByNamespace_def go_index_def Let_def)

lemma row_field_entry [simp]:
  "row_field (static_entry (g, v, r, k)) ''group'' = g"
  "row_field (static_entry (g, v, r, k)) ''version'' = v"
  "row_field (static_entry (g, v, r, k)) ''resource'' = r"
  "row_field (static_entry (g, v, r, k)) ''kind'' = k"
  by (simp_all add: row_field_def static_entry_def)

definition row_gvr :: "string \<times> string \<times> string \<times> string \<Rightarrow> gvr" where
  "row_gvr row = (case row of (g, v, r, k) \<Rightarrow> \<lparr>Group = g, Version = v, Resource = r\<rparr>)"

definition row_kind :: "string \<times> string \<times> string \<times> string \<Rightarrow> string" where
  "row_kind row = (case row of (g, v, r, k) \<Rightarrow> k)"

definition row_clean :: "string \<times> string \<times> string \<times> string \<Rightarrow> bool" where
  "row_clean row \<longleftrightarrow> gvr_clean (row_gvr row) \<and> key_clean (row_kind row)"

lemma static_router_loop_rows:
  "static_router_loop mkInf (map static_entry rows) infs started =
     Ok (foldl (\<lambda>t row. RegisterInformer t (row_gvr row) [] (row_kind row) (mkInf (row_gvr row) []))
           infs rows,
         started @ map (\<lambda>row. \<lparr>informers = [mkInf (row_gvr row) []], namespaces = [[]],
                               Gvr = row_gvr row, kind = row_kind row\<rparr>) rows)"
proof (induction rows arbitrary: infs started)
  case Nil
  then show ?case by simp
next
  case (Cons row rows)
  obtain g v r k where "row = (g, v, r, k)" by (cases row)
  then show ?case
    using Cons by (simp add: static_router_loop_Cons row_gvr_def row_kind_def Let_def
        del: static_router_loop.simps(2))
qed

lemma static_lookup:
  assumes "\<forall>row \<in> set rows. row_clean row" and "row \<in> set rows"
  shows "map_of (foldl (\<lambda>t row. RegisterInformer t (row_gvr row) [] (row_kind row)
                   (mkInf (row_gvr row) [])) infs rows)
           (getInformerKey (row_gvr row) (row_kind row) []) = Some (mkInf (row_gvr row) [])"
  using assms
proof (induction rows rule: rev_induct)
  case Nil
  then show ?case by simp
next
  case (snoc last rows)
  show ?case
  proof (cases "getInformerKey (row_gvr last) (row_kind last) [] =
                getInformerKey (row_gvr row) (row_kind row) []")
    case True
    then have "row_gvr last = row_gvr row"
      using snoc.prems informer_key_inj
        [of "row_gvr last" "row_gvr row" "row_kind last" "row_kind row" "[]" "[]"]
      by (auto simp: row_clean_def)
    then show ?thesis using True by (simp add: RegisterInformer_def update_conv')
  next
    case False
    with snoc show ?thesis by (auto simp: RegisterInformer_def update_conv')
  qed
qed


lemma static_lookup_namespace:
  assumes "\<forall>row \<in> set rows. row_clean row" and "gvr_clean g" "key_clean k" and "ns \<noteq> []"
  shows "map_of (foldl (\<lambda>t row. RegisterInformer t (row_gvr row) [] (row_kind row)
                   (mkInf (row_gvr row) [])) [] rows) (getInformerKey g k ns) = None"
  using assms(1)
proof (induction rows rule: rev_induct)
  case Nil
  then show ?case by simp
next
  case (snoc row rows)
  have "getInformerKey (row_gvr row) (row_kind row) [] \<noteq> getInformerKey g k ns"
    using snoc.prems assms(2-4) informer_key_inj
      [of "row_gvr row" g "row_kind row" k "[]" ns]
    by (auto simp: row_clean_def)
  with snoc show ?case by (simp add: RegisterInformer_def update_conv')
qed

subsection \<open>Properties\<close>

text \<open>
  C25: An item that carries an object (a deletion, or an update of an object being deleted)
  publishes exactly one event, a DELETE for the storage component. No such item ever produces an
  event for the manager, also when the object is a CustomResourceDefinition: the manager is never
  told that a definition was removed.
\<close>

theorem reconcile_delete_only_storage:
  assumes "reconcile api (ingester_Handle api) store h infs item = Ok evs"
    and "ItemObject item = Some p"
  shows "\<exists>ev. evs = [ev] \<and> Obj ev = p \<and> EventType ev = DELETE \<and> EventTarget ev = STORAGE"
  using assms by (rule ing.reconcile_publishes)

theorem reconcile_delete_only_storage_witness:
  "\<exists>ev. reconcile sample_api (ingester_Handle sample_api) (\<lambda>_ _. Inr None)
       (\<lambda>_. sample_object ''apiextensions.k8s.io/v1'' ''CustomResourceDefinition'' [] ''r1'' ''u1'') []
       \<lparr>Key = ''apiextensions.k8s.io/v1/customresourcedefinitions/CustomResourceDefinition|r1'',
        ItemObject = Some 4\<rparr> = Ok [ev] \<and>
     Obj ev = 4 \<and> EventType ev = DELETE \<and> EventTarget ev = STORAGE"
proof -
  let ?crd = "sample_object ''apiextensions.k8s.io/v1'' ''CustomResourceDefinition'' [] ''r1'' ''u1''"
  let ?item = "\<lparr>Key = ''apiextensions.k8s.io/v1/customresourcedefinitions/CustomResourceDefinition|r1'',
       ItemObject = Some 4\<rparr>"
  obtain evs where evs: "reconcile sample_api (ingester_Handle sample_api) (\<lambda>_ _. Inr None) (\<lambda>_. ?crd) []
      ?item = Ok evs"
    by (simp add: reconcile_def splitKey_def strings_SplitN2_def go_index_def ingester_Handle_def
        sample_defs)
  from reconcile_delete_only_storage [OF evs, of 4] obtain ev where
    "evs = [ev]" "Obj ev = 4" "EventType ev = DELETE" "EventTarget ev = STORAGE" by auto
  with evs show ?thesis by blast
qed

text \<open>
  An item without an object, for an object that is in the store of the informer found for its
  key, publishes exactly one UPDATE event carrying the stored object and the plural of the
  resource: for the manager when the group is that of CustomResourceDefinitions, for the storage
  component otherwise.
\<close>

theorem reconcile_update_routed:
  assumes "meta_key_law api" "obj_clean api (h p)" "gvr_clean g" "key_clean k"
    and "buildKey api g k (h p) = Inr key"
    and "find_informer infs g k (GetNamespace api (h p)) = Some ifm"
    and "store ifm (meta_key (GetNamespace api (h p)) (GetName api (h p))) =
           Inr (Some (AnyUnstructured un))"
  shows "\<exists>ev. reconcile api (ingester_Handle api) store h infs
           \<lparr>Key = key, ItemObject = None\<rparr> = Ok [ev] \<and>
           Obj ev = un \<and> EventType ev = UPDATE \<and> EventResource ev = Resource g \<and>
           EventTarget ev = (if Group g = ''apiextensions.k8s.io'' then MANAGER else STORAGE)"
  using assms by (rule ing.reconcile_current)

theorem reconcile_update_routed_witness:
  "\<exists>ev. reconcile sample_api (ingester_Handle sample_api)
      (\<lambda>_ k. if k = ''demo/r1'' then Inr (Some (AnyUnstructured 9)) else Inr None)
      (\<lambda>_. sample_object ''core.krateo.io/v1'' ''Repo'' ''demo'' ''r1'' ''u1'')
      [(''core.krateo.io/v1/repos/Repo|'', 3)]
      \<lparr>Key = ''core.krateo.io/v1/repos/Repo|demo/r1'', ItemObject = None\<rparr> = Ok [ev] \<and>
     Obj ev = 9 \<and> EventTarget ev = STORAGE"
proof -
  let ?u = "sample_object ''core.krateo.io/v1'' ''Repo'' ''demo'' ''r1'' ''u1''"
  let ?g = "\<lparr>Group = ''core.krateo.io'', Version = ''v1'', Resource = ''repos''\<rparr>"
  have names: "GetNamespace sample_api ?u = ''demo''" "GetName sample_api ?u = ''r1''"
    by (simp_all add: sample_defs)
  show ?thesis
    using reconcile_update_routed [of sample_api "\<lambda>_. ?u" 0 ?g "''Repo''"
        "''core.krateo.io/v1/repos/Repo|demo/r1''" "[(''core.krateo.io/v1/repos/Repo|'', 3)]" 3
        "\<lambda>_ k. if k = ''demo/r1'' then Inr (Some (AnyUnstructured 9)) else Inr None" 9]
    by (simp add: sample_meta_key_law names obj_clean_def gvr_clean_def key_clean_def
        find_informer_def getInformerKey_def meta_key_def buildKey_def)
       (auto simp: sample_defs)
qed

text \<open>
  The informers a router registers are the ones the pool later finds: after a router has been
  built with the pool, a key of its group-version-resource and kind is served by the informer of
  the object's namespace, or by the all-namespaces informer when that namespace is not watched on
  its own and has no older registration.
\<close>

theorem NewRouter_registers:
  assumes "NewRouter mkInf opts (Some t) = (r, Some t')"
    and "gvr_clean (Gvr r)" "key_clean (kind r)"
    and "ns \<in> set (namespaces r) \<or>
         [] \<in> set (namespaces r) \<and> map_of t (getInformerKey (Gvr r) (kind r) ns) = None"
  shows "find_informer t' (Gvr r) (kind r) ns =
           Some (mkInf (Gvr r) (if ns \<in> set (namespaces r) then ns else []))"
proof -
  have t': "t' = foldl (\<lambda>t ns. RegisterInformer t (Gvr r) ns (kind r) (mkInf (Gvr r) ns)) t
                   (namespaces r)"
    using assms(1) by (auto simp: NewRouter_eq Let_def)
  show ?thesis unfolding t' using assms(2-4) by (intro find_informer_registered) auto
qed

theorem NewRouter_registers_witness:
  "find_informer (the (snd (NewRouter (\<lambda>g ns. Suc (length ns))
      \<lparr>opt_Namespaces = [], opt_Gvr = \<lparr>Group = ''g'', Version = ''v1'', Resource = ''rs''\<rparr>,
       opt_Kind = ''R''\<rparr> (Some []))))
     \<lparr>Group = ''g'', Version = ''v1'', Resource = ''rs''\<rparr> ''R'' ''team-a'' = Some 1"
  using NewRouter_registers
    [of "\<lambda>g ns. Suc (length ns)"
        "\<lparr>opt_Namespaces = [], opt_Gvr = \<lparr>Group = ''g'', Version = ''v1'', Resource = ''rs''\<rparr>,
          opt_Kind = ''R''\<rparr>" "[]"
        "fst (NewRouter (\<lambda>g ns. Suc (length ns))
          \<lparr>opt_Namespaces = [], opt_Gvr = \<lparr>Group = ''g'', Version = ''v1'', Resource = ''rs''\<rparr>,
           opt_Kind = ''R''\<rparr> (Some []))"
        "[(''g/v1/rs/R|'', 1)]" "''team-a''"]
  by (simp add: NewRouter_eq RegisterInformer_def getInformerKey_def gvr_clean_def key_clean_def
      Let_def)

text \<open>
  Starting the static routers from a table of well-formed lines, with no informer registered
  yet, succeeds, starts one router per line in the table's order, and makes every listed kind
  resolvable in every namespace, through the informer created for its line.
\<close>

theorem NewStaticRouters_lines:
  assumes "rows \<noteq> []" and "\<forall>row \<in> set rows. static_row_ok row \<and> row_clean row"
    and "row \<in> set rows"
  shows "\<exists>infs routers.
           NewStaticRouters mkInf (strings_Join (map static_line rows) [CHR 0x0A]) [] =
             Ok (infs, routers) \<and>
           map Gvr routers = map row_gvr rows \<and>
           find_informer infs (row_gvr row) (row_kind row) ns = Some (mkInf (row_gvr row) [])"
proof -
  let ?infs = "foldl (\<lambda>t row. RegisterInformer t (row_gvr row) [] (row_kind row)
      (mkInf (row_gvr row) [])) [] rows"
  have rows: "getRoutersFromStatic (strings_Join (map static_line rows) [CHR 0x0A]) =
      map static_entry rows"
    using assms(1,2) by (intro static_table_entries) auto
  have "map_of ?infs (getInformerKey (row_gvr row) (row_kind row) []) =
      Some (mkInf (row_gvr row) [])"
    using assms(2,3) by (intro static_lookup) auto
  moreover have "map_of ?infs (getInformerKey (row_gvr row) (row_kind row) ns) = None" if "ns \<noteq> []"
    using assms(2,3) that by (intro static_lookup_namespace) (auto simp: row_clean_def)
  ultimately show ?thesis
    by (cases "ns = []")
       (auto simp: NewStaticRouters_def rows static_router_loop_rows find_informer_def comp_def)
qed

theorem NewStaticRouters_lines_witness:
  "\<exists>infs routers.
     NewStaticRouters (\<lambda>g ns. 5)
       ''apiextensions.k8s.io/v1/customresourcedefinitions/CustomResourceDefinition'' [] =
       Ok (infs, routers) \<and>
     find_informer infs
       \<lparr>Group = ''apiextensions.k8s.io'', Version = ''v1'', Resource = ''customresourcedefinitions''\<rparr>
       ''CustomResourceDefinition'' ''any'' = Some 5"
proof -
  let ?row = "(''apiextensions.k8s.io'', ''v1'', ''customresourcedefinitions'',
    ''CustomResourceDefinition'')"
  show ?thesis
    using NewStaticRouters_lines [of "[?row]" ?row "\<lambda>g ns. 5" "''any''"]
    by (simp add: static_row_ok_def static_field_ok_def row_clean_def row_gvr_def row_kind_def
        gvr_clean_def key_clean_def static_line_def) blast
qed

text \<open>
  C31: A failing item is retried at most five times. Starting with no requeues recorded, the first
  five failed attempts put the item back rate-limited, the sixth drops it, and afterwards its
  requeue count is zero again. (\<open>f i\<close> is the queue when attempt \<open>i\<close> is settled; whatever happens
  between two attempts leaves this item's requeue count alone.)
\<close>

theorem settle_item_retries:
  assumes "requeue_law wq"
    and "wq_NumRequeues wq (f 0) item = 0"
    and "\<forall>i < 5. wq_NumRequeues wq (f (Suc i)) item =
           wq_NumRequeues wq (settle_item wq (f i) item True) item"
  shows "(\<forall>i < 5. settle_item wq (f i) item True =
             wq_Done wq (wq_AddRateLimited wq (f i) item) item) \<and>
         settle_item wq (f 5) item True = wq_Done wq (wq_Forget wq (f 5) item) item \<and>
         wq_NumRequeues wq (settle_item wq (f 5) item True) item = 0"
proof -
  have cnt: "i \<le> 5 \<Longrightarrow> wq_NumRequeues wq (f i) item = i" for i :: nat
  proof (induction i)
    case 0
    then show ?case using assms(2) by simp
  next
    case (Suc i)
    then show ?case using assms(1,3) by (simp add: settle_item_def requeue_law_def)
  qed
  then show ?thesis using assms(1) by (simp add: settle_item_def requeue_law_def)
qed

text \<open>A queue that only counts.\<close>

definition counting_queue :: "nat workqueue" where
  "counting_queue =
     \<lparr>wq_Get = (\<lambda>q. None), wq_Done = (\<lambda>q i. q), wq_AddRateLimited = (\<lambda>q i. Suc q),
      wq_Forget = (\<lambda>q i. 0), wq_NumRequeues = (\<lambda>q i. q), wq_Add = (\<lambda>q i. q),
      wq_ShutDown = (\<lambda>q. q)\<rparr>"

theorem settle_item_retries_witness:
  "settle_item counting_queue 4 \<lparr>Key = ''k'', ItemObject = None\<rparr> True = 5 \<and>
   settle_item counting_queue 5 \<lparr>Key = ''k'', ItemObject = None\<rparr> True = 0"
proof -
  have *: "(\<forall>i < 5. settle_item counting_queue i \<lparr>Key = ''k'', ItemObject = None\<rparr> True =
      wq_Done counting_queue (wq_AddRateLimited counting_queue i \<lparr>Key = ''k'', ItemObject = None\<rparr>)
        \<lparr>Key = ''k'', ItemObject = None\<rparr>) \<and>
    settle_item counting_queue 5 \<lparr>Key = ''k'', ItemObject = None\<rparr> True =
      wq_Done counting_queue (wq_Forget counting_queue 5 \<lparr>Key = ''k'', ItemObject = None\<rparr>)
        \<lparr>Key = ''k'', ItemObject = None\<rparr> \<and>
    wq_NumRequeues counting_queue (settle_item counting_queue 5 \<lparr>Key = ''k'', ItemObject = None\<rparr> True)
      \<lparr>Key = ''k'', ItemObject = None\<rparr> = 0"
    by (rule settle_item_retries [where f = "\<lambda>i. i"])
       (auto simp: requeue_law_def counting_queue_def settle_item_def)
  then show ?thesis by (simp add: counting_queue_def)
qed

end
