(* ===== verification/UtilKube.thy ===== *)
theory UtilKube
  imports KubeTypes
begin

text \<open>
  \<^verbatim>\<open>internal/util/kube.go\<close>: the group-version-resources a CustomResourceDefinition serves, read from
  its unstructured JSON, and the lookup of the plural of a kind.
\<close>

subsection \<open>ExtractGvrkNsFromCrd\<close>

text \<open>The loop over \<^verbatim>\<open>spec.versions\<close>, with its two \<^verbatim>\<open>continue\<close>s.\<close>

fun crd_version_loop :: "string \<Rightarrow> string \<Rightarrow> json list \<Rightarrow> gvr list \<Rightarrow> gvr list" where
  "crd_version_loop grp plural [] res = res"
| "crd_version_loop grp plural (v # vs) res =
     (case as_map (Some v) of
        None \<Rightarrow> crd_version_loop grp plural vs res
      | Some submap \<Rightarrow>
          (let version = as_string (map_of submap ''name'') in
           if version = [] then crd_version_loop grp plural vs res
           else crd_version_loop grp plural vs
                  (res @ [\<lparr>Group = grp, Version = version, Resource = plural\<rparr>])))"

definition ExtractGvrkNsFromCrd :: "unstructured \<Rightarrow> gvr list \<times> string \<times> bool" where
  "ExtractGvrkNsFromCrd crd =
     (case as_map (map_of (Object crd) ''spec'') of
        None \<Rightarrow> ([], [], False)
      | Some spec \<Rightarrow>
          (let scope = as_string (map_of spec ''scope'');
               namespaced = (scope = ''Namespaced'');
               grp = as_string (map_of spec ''group'')
           in case as_map (map_of spec ''names'') of
                None \<Rightarrow> ([], [], namespaced)
              | Some names \<Rightarrow>
                  (let kind = as_string (map_of names ''kind'');
                       plural = as_string (map_of names ''plural'')
                   in case as_slice (map_of spec ''versions'') of
                        None \<Rightarrow> ([], [], namespaced)
                      | Some versions \<Rightarrow>
                          (crd_version_loop grp plural versions [], kind, namespaced))))"

subsection \<open>GetGVR\<close>

text \<open>
  \<open>plurals_Get\<close> is the third-party lookup. Its error is discarded: the function returns an empty
  resource and no error.
\<close>

definition GetGVR :: "(gvk \<Rightarrow> goerror + string) \<Rightarrow> gvk \<Rightarrow> goerror + gvr" where
  "GetGVR plurals_Get k =
     (case plurals_Get k of
        Inl err \<Rightarrow> Inr \<lparr>Group = [], Version = [], Resource = []\<rparr>
      | Inr plural \<Rightarrow>
          Inr \<lparr>Group = gvk_Group k, Version = gvk_Version k, Resource = plural\<rparr>)"

subsection \<open>The manifest of a definition, and what is read back from it\<close>

text \<open>
  The names of the versions that count: those whose entry is an object with a non-empty name.
\<close>

fun version_names :: "json list \<Rightarrow> string list" where
  "version_names [] = []"
| "version_names (v # vs) =
     (case as_map (Some v) of
        None \<Rightarrow> version_names vs
      | Some m \<Rightarrow> (if as_string (map_of m ''name'') = [] then version_names vs
                  else as_string (map_of m ''name'') # version_names vs))"

text \<open>The part of a CustomResourceDefinition's manifest that matters here.\<close>

definition crd_manifest :: "string \<Rightarrow> string \<Rightarrow> string \<Rightarrow> string list \<Rightarrow> bool \<Rightarrow> unstructured" where
  "crd_manifest grp plural kind versions namespaced =
     \<lparr>Object =
        [(''kind'', JStr ''CustomResourceDefinition''),
         (''spec'', JObj
            [(''group'', JStr grp),
             (''scope'', JStr (if namespaced then ''Namespaced'' else ''Cluster'')),
             (''names'', JObj [(''plural'', JStr plural), (''kind'', JStr kind)]),
             (''versions'', JArr (map (\<lambda>v. JObj [(''name'', JStr v), (''served'', JBool True)])
                versions))])]\<rparr>"

lemma crd_version_loop_eq:
  "crd_version_loop grp plural vs res =
     res @ map (\<lambda>v. \<lparr>Group = grp, Version = v, Resource = plural\<rparr>) (version_names vs)"
  by (induction vs arbitrary: res) (auto simp: Let_def split: option.splits)

lemma version_names_nonempty [simp]: "[] \<notin> set (version_names vs)"
  by (induction vs) (auto split: option.splits if_splits)

lemma version_names_objects:
  "[] \<notin> set vs \<Longrightarrow>
   version_names (map (\<lambda>v. JObj [(''name'', JStr v), (''served'', JBool True)]) vs) = vs"
  by (induction vs) auto

lemma ExtractGvrkNsFromCrd_gvrs:
  assumes "ExtractGvrkNsFromCrd crd = (gvrs, kind, namespaced)" and "gvrs \<noteq> []"
  obtains spec names versions where
    "map_of (Object crd) ''spec'' = Some (JObj spec)"
    "map_of spec ''names'' = Some (JObj names)"
    "map_of spec ''versions'' = Some (JArr versions)"
    "gvrs = map (\<lambda>v. \<lparr>Group = as_string (map_of spec ''group''), Version = v,
                      Resource = as_string (map_of names ''plural'')\<rparr>) (version_names versions)"
    "kind = as_string (map_of names ''kind'')"
    "namespaced = (as_string (map_of spec ''scope'') = ''Namespaced'')"
proof -
  have as_mapD: "\<And>j m. as_map j = Some m \<Longrightarrow> j = Some (JObj m)"
    by (auto elim: as_map.elims)
  have as_sliceD: "\<And>j m. as_slice j = Some m \<Longrightarrow> j = Some (JArr m)"
    by (auto elim: as_slice.elims)
  show ?thesis
    using assms that
    by (auto simp: ExtractGvrkNsFromCrd_def Let_def crd_version_loop_eq
        split: option.splits dest!: as_mapD as_sliceD)
qed

lemma ExtractGvrkNsFromCrd_no_spec:
  "as_map (map_of (Object crd) ''spec'') = None \<Longrightarrow> ExtractGvrkNsFromCrd crd = ([], [], False)"
  by (simp add: ExtractGvrkNsFromCrd_def)

lemma ExtractGvrk_same_group:
  assumes "g \<in> set (fst (ExtractGvrkNsFromCrd crd))"
  shows "Group g = Group (hd (fst (ExtractGvrkNsFromCrd crd))) \<and>
         Resource g = Resource (hd (fst (ExtractGvrkNsFromCrd crd))) \<and> Version g \<noteq> []"
proof -
  obtain gvrs kind ns where e: "ExtractGvrkNsFromCrd crd = (gvrs, kind, ns)"
    by (metis prod_cases3)
  with assms have "g \<in> set gvrs" and "gvrs \<noteq> []" by auto
  with e show ?thesis
    by (auto elim!: ExtractGvrkNsFromCrd_gvrs simp: hd_map)
qed

subsection \<open>Properties\<close>

text \<open>
  C36: Reading back the manifest of a definition gives one group-version-resource per version, in
  the manifest's order, all with the definition's group and plural, together with its kind and
  scope, when no version has an empty name.
\<close>

theorem ExtractGvrkNsFromCrd_manifest:
  assumes "[] \<notin> set versions"
  shows "ExtractGvrkNsFromCrd (crd_manifest grp plural kind versions namespaced) =
    (map (\<lambda>v. \<lparr>Group = grp, Version = v, Resource = plural\<rparr>) versions, kind, namespaced)"
  using assms
  by (simp add: ExtractGvrkNsFromCrd_def crd_manifest_def crd_version_loop_eq
      version_names_objects)

theorem ExtractGvrkNsFromCrd_manifest_witness:
  "ExtractGvrkNsFromCrd
     (crd_manifest ''core.krateo.io'' ''compositions'' ''Composition'' [''v1'', ''v2''] True) =
   ([\<lparr>Group = ''core.krateo.io'', Version = ''v1'', Resource = ''compositions''\<rparr>,
     \<lparr>Group = ''core.krateo.io'', Version = ''v2'', Resource = ''compositions''\<rparr>],
    ''Composition'', True)"
  using ExtractGvrkNsFromCrd_manifest
    [of "[''v1'', ''v2'']" "''core.krateo.io''" "''compositions''" "''Composition''" True]
  by simp

text \<open>
  The group-version-resources extracted from any object whatsoever agree in group and
  resource and have a non-empty version: they differ in the version only, which is what lets the
  manager check the group of the first one alone.
\<close>

theorem ExtractGvrkNsFromCrd_uniform:
  assumes "g \<in> set (fst (ExtractGvrkNsFromCrd crd))"
  shows "Group g = Group (hd (fst (ExtractGvrkNsFromCrd crd))) \<and>
         Resource g = Resource (hd (fst (ExtractGvrkNsFromCrd crd))) \<and> Version g \<noteq> []"
  using assms by (rule ExtractGvrk_same_group)

theorem ExtractGvrkNsFromCrd_uniform_witness:
  "Group \<lparr>Group = ''g'', Version = ''v1'', Resource = ''ps''\<rparr> =
     Group (hd (fst (ExtractGvrkNsFromCrd (crd_manifest ''g'' ''ps'' ''P'' [''v0'', ''v1''] True))))"
  using ExtractGvrkNsFromCrd_uniform
    [of "\<lparr>Group = ''g'', Version = ''v1'', Resource = ''ps''\<rparr>"
        "crd_manifest ''g'' ''ps'' ''P'' [''v0'', ''v1''] True"]
  by (simp add: ExtractGvrkNsFromCrd_def crd_manifest_def Let_def)

end
