(* ===== verification/Manager.thy ===== *)
theory Manager
  imports WorkPool UtilKube
begin

text \<open>
  \<^verbatim>\<open>internal/manager/\<close>: the manager starts a router for every version of every
  CustomResourceDefinition of a managed group, and stops it when the definition goes away.

  A context made by \<^verbatim>\<open>context.WithCancel\<close> is a number; the map of informers keeps, for a
  group-version-resource, the context whose cancel function it holds. A router started with a
  context runs until that context, or the manager's own, is cancelled.
\<close>

subsection \<open>Managed groups\<close>

definition manager_mustLoad :: "(string, string) gomap \<Rightarrow> string \<Rightarrow> string outcome" where
  "manager_mustLoad static filename =
     (let filename = (if strings_HasPrefix filename ''assets/'' then filename
                      else ''assets/'' @ filename)
      in case map_of static filename of
           None \<Rightarrow> Panic (''open '' @ filename @ '': file does not exist'')
         | Some b \<Rightarrow> Ok (strings_TrimSpace b))"

definition manager_static_fs :: "(string, string) gomap" where
  "manager_static_fs =
     [(''assets/managed_groups'',
       strings_Join
         [''composition.krateo.io'', ''widgets.templates.krateo.io'', ''core.krateo.io'',
          ''finops.krateo.io'', ''basic.authn.krateo.io'', ''oidc.authn.krateo.io'',
          ''oauth.authn.krateo.io'', ''ldap.authn.krateo.io'', ''ai.krateo.io''] [CHR 0x0A])]"

fun parse_lines :: "string list \<Rightarrow> (string, unit) gomap \<Rightarrow> (string, unit) gomap" where
  "parse_lines [] groups = groups"
| "parse_lines (line # lines) groups =
     (let line = strings_TrimSpace line in
      parse_lines lines (if line \<noteq> [] then AList.update line () groups else groups))"

definition parse :: "string \<Rightarrow> (string, unit) gomap" where
  "parse content = parse_lines (strings_Split content CHR 0x0A) []"

definition isManagedGroup :: "(string, unit) gomap \<Rightarrow> string \<Rightarrow> bool" where
  "isManagedGroup groups grp = (map_of groups grp \<noteq> None)"

subsection \<open>State\<close>

type_synonym ctxid = nat

record manager =
  resyncInterval :: int
  throttlePeriod :: int
  Namespaces :: "string list"
  minformers :: "(string, ctxid) gomap"
  managedGroups :: "(string, unit) gomap"
  nextctx :: ctxid
  cancelled :: "ctxid list"
  started :: "(ctxid \<times> Router) list"
  pool :: informer_table
  mgrDone :: bool

text \<open>
  Bus, client, handler, queue and logger of the options only pass through. The pool is known by its
  table of informers.
\<close>

record ManagerOpts =
  mo_ResyncInterval :: int
  mo_ThrottlePeriod :: int
  mo_Namespaces :: "string list"
  mo_WgPool :: informer_table

text \<open>\<^verbatim>\<open>NewManager\<close> panics when the embedded file is missing.\<close>

definition NewManager :: "(string, string) gomap \<Rightarrow> ManagerOpts \<Rightarrow> manager outcome" where
  "NewManager static opts =
     bind_outcome (manager_mustLoad static ''managed_groups'') (\<lambda>content.
       Ok \<lparr>resyncInterval = mo_ResyncInterval opts, throttlePeriod = mo_ThrottlePeriod opts,
           Namespaces = mo_Namespaces opts, minformers = [], managedGroups = parse content,
           nextctx = 0, cancelled = [], started = [], pool = mo_WgPool opts, mgrDone = False\<rparr>)"

subsection \<open>Starting and stopping routers\<close>

text \<open>
  \<^verbatim>\<open>stopInformer\<close> looks the cancel function up without the lock and then, under the lock, calls it
  and deletes the entry: the lookup and the locked section are two steps.
\<close>

definition stop_lookup :: "manager \<Rightarrow> string \<Rightarrow> ctxid option" where
  "stop_lookup m g = map_of (minformers m) g"

definition stop_locked :: "manager \<Rightarrow> string \<Rightarrow> ctxid \<Rightarrow> manager" where
  "stop_locked m g cancel =
     m\<lparr>cancelled := cancel # cancelled m, minformers := AList.delete g (minformers m)\<rparr>"

definition stopInformer :: "manager \<Rightarrow> string \<Rightarrow> manager" where
  "stopInformer m g =
     (case stop_lookup m g of None \<Rightarrow> m | Some cancel \<Rightarrow> stop_locked m g cancel)"

definition startInformer ::
  "kube_api \<Rightarrow> (gvr \<Rightarrow> string \<Rightarrow> informer) \<Rightarrow> manager \<Rightarrow> gvr \<Rightarrow> string \<Rightarrow> string list \<Rightarrow> manager" where
  "startInformer api mkInf m g knd nss =
     (if gvr_Empty api g \<or> Version g = ''vacuum'' then m
      else if map_of (minformers m) (gvr_String api g) \<noteq> None then m
      else
        (let ctx = nextctx m;
             m = m\<lparr>nextctx := Suc ctx,
                   minformers := AList.update (gvr_String api g) ctx (minformers m)\<rparr>;
             r = NewRouter mkInf \<lparr>opt_Namespaces = nss, opt_Gvr = g, opt_Kind = knd\<rparr> (Some (pool m))
         in m\<lparr>started := started m @ [(ctx, fst r)], pool := the (snd r)\<rparr>))"

definition GetInformers :: "manager \<Rightarrow> nat" where
  "GetInformers m = length (minformers m)"

subsection \<open>The subscription\<close>

text \<open>The body of the loop over the group-version-resources.\<close>

definition handle_gvr ::
  "kube_api \<Rightarrow> (gvr \<Rightarrow> string \<Rightarrow> informer) \<Rightarrow> Operation \<Rightarrow> gotime option \<Rightarrow> string \<Rightarrow> string list \<Rightarrow>
     manager \<Rightarrow> gvr \<Rightarrow> manager" where
  "handle_gvr api mkInf op deleted knd nss m g =
     (case op of
        CREATE \<Rightarrow> startInformer api mkInf m g knd nss
      | DELETE \<Rightarrow> stopInformer m (gvr_String api g)
      | UPDATE \<Rightarrow>
          (if deleted \<noteq> None then stopInformer m (gvr_String api g)
           else startInformer api mkInf m g knd nss))"

definition manager_on_event ::
  "kube_api \<Rightarrow> (gvr \<Rightarrow> string \<Rightarrow> informer) \<Rightarrow> oheap \<Rightarrow> manager \<Rightarrow> InformerEvent \<Rightarrow> manager" where
  "manager_on_event api mkInf h m eI =
     (if EventTarget eI \<noteq> MANAGER then m
      else if GetKind api (h (Obj eI)) = ''CustomResourceDefinition'' then
        (let (gvrs, knd, namespaced) = ExtractGvrkNsFromCrd (h (Obj eI)) in
         if length gvrs > 0 \<and> \<not> isManagedGroup (managedGroups m) (Group (hd gvrs)) then m
         else
           (let nss = (if \<not> namespaced then [] else Namespaces m) in
            foldl (handle_gvr api mkInf (EventType eI) (GetDeletionTimestamp api (h (Obj eI))) knd nss)
              m gvrs))
      else m)"

text \<open>
  \<^verbatim>\<open>Run\<close> and the goroutine it starts first, which cancels the manager's context as soon as the stop
  channel closes; the deferred calls run in reverse order.
\<close>

definition manager_Run :: "sub_action list" where
  "manager_Run = [SubSubscribe ''informerevent'', SubAwaitStop, SubUnsubscribe, SubCancelRouters]"

definition manager_watch_stop :: "sub_action list" where
  "manager_watch_stop = [SubAwaitStop, SubCancelRouters]"

text \<open>When the manager's context is cancelled, every router's is.\<close>

definition manager_stop :: "manager \<Rightarrow> manager" where
  "manager_stop m = m\<lparr>mgrDone := True\<rparr>"

subsection \<open>Running routers\<close>

definition live :: "manager \<Rightarrow> (ctxid \<times> Router) list" where
  "live m = filter (\<lambda>(c, r). c \<notin> set (cancelled m)) (started m)"

text \<open>The routers that run: none once the manager's own context is cancelled.\<close>

definition running :: "manager \<Rightarrow> (ctxid \<times> Router) list" where
  "running m = (if mgrDone m then [] else live m)"

text \<open>
  The map and the routers agree: keys are distinct, no context is used twice, and the entries of the
  map are exactly the uncancelled routers under the name of their group-version-resource.
\<close>

definition manager_inv :: "kube_api \<Rightarrow> manager \<Rightarrow> bool" where
  "manager_inv api m \<longleftrightarrow>
     wf_map (minformers m) \<and>
     distinct (map fst (started m)) \<and>
     (\<forall>c \<in> fst ` set (started m). c < nextctx m) \<and>
     (\<forall>c \<in> set (cancelled m). c < nextctx m) \<and>
     mset (minformers m) = mset (map (\<lambda>(c, r). (gvr_String api (Gvr r), c)) (live m))"

lemmas manager_defs [go_simps] = handle_gvr_def manager_on_event_def stop_lookup_def

interpretation mgr_sub: bus_subscriber "manager_on_event api mkInf h" MANAGER
  by unfold_locales (simp add: manager_on_event_def)

subsection \<open>Lemmas\<close>

lemma Gvr_NewRouter [simp]: "Gvr (fst (NewRouter mkInf opts p)) = opt_Gvr opts"
  by (simp add: NewRouter_def Let_def)

lemma live_cancel:
  assumes "distinct (map fst (started m))" and "(c, r) \<in> set (live m)"
  shows "mset (filter (\<lambda>(c', r). c' \<noteq> c \<and> c' \<notin> set (cancelled m)) (started m)) =
           mset (live m) - {#(c, r)#}"
proof -
  from assms(2) have mem: "(c, r) \<in> set (started m)" "c \<notin> set (cancelled m)"
    by (auto simp: live_def)
  then obtain xs ys where st: "started m = xs @ (c, r) # ys" by (auto simp: in_set_conv_decomp)
  with assms(1) have "c \<notin> fst ` set xs" "c \<notin> fst ` set ys" by auto
  then have "filter (\<lambda>(c', r). c' \<noteq> c \<and> c' \<notin> set (cancelled m)) zs =
      filter (\<lambda>(c', r). c' \<notin> set (cancelled m)) zs" if "zs = xs \<or> zs = ys" for zs
    using that by (intro filter_cong) (auto simp: image_iff)
  then show ?thesis using mem(2) by (simp add: live_def st)
qed

lemma stopInformer_inv:
  assumes "manager_inv api m"
  shows "manager_inv api (stopInformer m g)"
proof (cases "map_of (minformers m) g")
  case None
  with assms show ?thesis by (simp add: stopInformer_def stop_lookup_def)
next
  case (Some c)
  from assms have wf: "wf_map (minformers m)"
    and ms: "mset (minformers m) = mset (map (\<lambda>(c, r). (gvr_String api (Gvr r), c)) (live m))"
    and dist: "distinct (map fst (started m))"
    and lt: "\<forall>c \<in> fst ` set (started m). c < nextctx m" "\<forall>c \<in> set (cancelled m). c < nextctx m"
    by (auto simp: manager_inv_def)
  from Some have "(g, c) \<in># mset (minformers m)" by (auto dest: map_of_SomeD)
  then have "(g, c) \<in> set (map (\<lambda>(c, r). (gvr_String api (Gvr r), c)) (live m))"
    unfolding ms by (simp only: set_mset_mset)
  then obtain r where r: "(c, r) \<in> set (live m)" "g = gvr_String api (Gvr r)" by auto
  then have c: "c < nextctx m" using lt(1) by (force simp: live_def)
  let ?m' = "stop_locked m g c"
  have "mset (live ?m') = mset (live m) - {#(c, r)#}"
    using live_cancel [OF dist r(1)] by (simp add: live_def stop_locked_def)
  then have "mset (map (\<lambda>(c, r). (gvr_String api (Gvr r), c)) (live ?m')) =
      mset (minformers m) - {#(g, c)#}"
    using r by (simp add: ms image_mset_Diff)
  then show ?thesis
    using Some wf dist lt c
    by (simp add: stopInformer_def stop_lookup_def manager_inv_def stop_locked_def
        wf_map_delete mset_delete)
qed

lemma startInformer_inv:
  assumes "manager_inv api m"
  shows "manager_inv api (startInformer api mkInf m g knd nss)"
proof (cases "gvr_Empty api g \<or> Version g = ''vacuum'' \<or> map_of (minformers m) (gvr_String api g) \<noteq> None")
  case True
  with assms show ?thesis by (auto simp: startInformer_def)
next
  case False
  from assms have fresh: "nextctx m \<notin> fst ` set (started m)" "nextctx m \<notin> set (cancelled m)"
    by (auto simp: manager_inv_def)
  with False assms show ?thesis
    by (auto simp: startInformer_def manager_inv_def live_def update_new Let_def wf_map_def
        map_of_eq_None_iff image_iff less_Suc_eq)
qed

lemma handle_gvr_inv:
  "manager_inv api m \<Longrightarrow> manager_inv api (handle_gvr api mkInf op deleted knd nss m g)"
  by (simp add: handle_gvr_def startInformer_inv stopInformer_inv split: Operation.splits)

lemma foldl_handle_gvr_inv:
  "manager_inv api m \<Longrightarrow> manager_inv api (foldl (handle_gvr api mkInf op deleted knd nss) m gvrs)"
  by (induction gvrs arbitrary: m) (auto intro: handle_gvr_inv)

lemma manager_on_event_inv:
  "manager_inv api m \<Longrightarrow> manager_inv api (manager_on_event api mkInf h m ev)"
  by (simp add: manager_on_event_def foldl_handle_gvr_inv split: prod.splits)

lemma manager_inv_live:
  assumes "manager_inv api m"
  shows "length (live m) = GetInformers m"
proof -
  have "length (minformers m) = length (map (\<lambda>(c, r). (gvr_String api (Gvr r), c)) (live m))"
    using assms by (intro mset_eq_length) (simp add: manager_inv_def)
  then show ?thesis by (simp add: GetInformers_def)
qed

lemma manager_inv_names:
  assumes "manager_inv api m"
  shows "distinct (map (\<lambda>(c, r). gvr_String api (Gvr r)) (live m))"
proof -
  have "mset (map fst (minformers m)) =
      mset (map fst (map (\<lambda>(c, r). (gvr_String api (Gvr r), c)) (live m)))"
    using assms by (simp add: manager_inv_def del: map_map)
  then have "distinct (map fst (map (\<lambda>(c, r). (gvr_String api (Gvr r), c)) (live m)))"
    using assms by (metis manager_inv_def mset_eq_imp_distinct_iff wf_map_def)
  then show ?thesis by (simp add: comp_def case_prod_unfold)
qed

lemma parse_lines_lookup:
  "map_of (parse_lines lines groups) g =
     (if g \<noteq> [] \<and> g \<in> strings_TrimSpace ` set lines then Some () else map_of groups g)"
  by (induction lines arbitrary: groups) (auto simp: Let_def update_conv')

lemma NewManager_inv: "NewManager static opts = Ok m \<Longrightarrow> manager_inv api m"
  by (cases "manager_mustLoad static ''managed_groups''")
     (auto simp: NewManager_def manager_inv_def live_def)

lemma manager_inv_ctx_lt:
  assumes "manager_inv api m" and "map_of (minformers m) k = Some c"
  shows "c < nextctx m"
proof -
  from assms(2) have "(k, c) \<in># mset (minformers m)" by (auto dest: map_of_SomeD)
  with assms(1) have "(k, c) \<in> set (map (\<lambda>(c, r). (gvr_String api (Gvr r), c)) (live m))"
    by (metis manager_inv_def set_mset_mset)
  with assms(1) show ?thesis by (force simp: live_def manager_inv_def)
qed

text \<open>Starting keeps what runs, and leaves the map unchanged where the name is taken.\<close>

lemma startInformer_keeps:
  "map_of (minformers m) k = Some c \<Longrightarrow>
     map_of (minformers (startInformer api mkInf m g knd nss)) k = Some c"
  by (auto simp: startInformer_def Let_def update_conv')

lemma startInformer_present:
  "\<not> gvr_Empty api g \<Longrightarrow> Version g \<noteq> ''vacuum'' \<Longrightarrow>
     map_of (minformers (startInformer api mkInf m g knd nss)) (gvr_String api g) \<noteq> None"
  by (auto simp: startInformer_def Let_def update_conv')

lemma startInformer_id:
  "gvr_Empty api g \<or> Version g = ''vacuum'' \<or> map_of (minformers m) (gvr_String api g) \<noteq> None \<Longrightarrow>
     startInformer api mkInf m g knd nss = m"
  by (auto simp: startInformer_def)

lemma startInformer_frame [simp]:
  "Namespaces (startInformer api mkInf m g knd nss) = Namespaces m"
  "managedGroups (startInformer api mkInf m g knd nss) = managedGroups m"
  "cancelled (startInformer api mkInf m g knd nss) = cancelled m"
  "mgrDone (startInformer api mkInf m g knd nss) = mgrDone m"
  by (auto simp: startInformer_def Let_def)

abbreviation start_all ::
  "kube_api \<Rightarrow> (gvr \<Rightarrow> string \<Rightarrow> informer) \<Rightarrow> string \<Rightarrow> string list \<Rightarrow> manager \<Rightarrow> gvr list \<Rightarrow> manager" where
  "start_all api mkInf knd nss \<equiv> foldl (\<lambda>m g. startInformer api mkInf m g knd nss)"

lemma start_all_frame [simp]:
  "Namespaces (start_all api mkInf knd nss m gvrs) = Namespaces m"
  "managedGroups (start_all api mkInf knd nss m gvrs) = managedGroups m"
  "cancelled (start_all api mkInf knd nss m gvrs) = cancelled m"
  "mgrDone (start_all api mkInf knd nss m gvrs) = mgrDone m"
  by (induction gvrs arbitrary: m) auto

lemma start_all_keeps:
  "map_of (minformers m) k = Some c \<Longrightarrow>
     map_of (minformers (start_all api mkInf knd nss m gvrs)) k = Some c"
  by (induction gvrs arbitrary: m) (auto simp: startInformer_keeps)

lemma start_all_present:
  assumes "g \<in> set gvrs" "\<not> gvr_Empty api g" "Version g \<noteq> ''vacuum''"
  shows "map_of (minformers (start_all api mkInf knd nss m gvrs)) (gvr_String api g) \<noteq> None"
  using assms
proof (induction gvrs arbitrary: m)
  case Nil
  then show ?case by simp
next
  case (Cons g' gvrs)
  show ?case
  proof (cases "g = g'")
    case True
    with Cons.prems startInformer_present [of api g mkInf m knd nss] show ?thesis
      by (auto dest: start_all_keeps)
  next
    case False
    with Cons show ?thesis by simp
  qed
qed

lemma start_all_id:
  assumes "\<forall>g \<in> set gvrs. gvr_Empty api g \<or> Version g = ''vacuum'' \<or>
             map_of (minformers m) (gvr_String api g) \<noteq> None"
  shows "start_all api mkInf knd nss m gvrs = m"
  using assms by (induction gvrs) (auto simp: startInformer_id)

abbreviation stop_all :: "kube_api \<Rightarrow> manager \<Rightarrow> gvr list \<Rightarrow> manager" where
  "stop_all api \<equiv> foldl (\<lambda>m g. stopInformer m (gvr_String api g))"

lemma stopInformer_lookup:
  "map_of (minformers (stopInformer m k)) k' =
     (if k' = k then None else map_of (minformers m) k')"
  by (auto simp: stopInformer_def stop_lookup_def stop_locked_def delete_conv'
      split: option.splits)

lemma stop_all_lookup:
  "map_of (minformers (stop_all api m gvrs)) k =
     (if k \<in> gvr_String api ` set gvrs then None else map_of (minformers m) k)"
  by (induction gvrs arbitrary: m) (auto simp: stopInformer_lookup)

lemma stopInformer_frame [simp]:
  "mgrDone (stopInformer m k) = mgrDone m" "started (stopInformer m k) = started m"
  by (simp_all add: stopInformer_def stop_locked_def split: option.split)

lemma stop_all_frame [simp]:
  "mgrDone (stop_all api m gvrs) = mgrDone m" "started (stop_all api m gvrs) = started m"
  by (induction gvrs arbitrary: m) simp_all

lemma stop_all_cancelled: "set (cancelled m) \<subseteq> set (cancelled (stop_all api m gvrs))"
proof (induction gvrs arbitrary: m)
  case (Cons g gvrs)
  have "set (cancelled m) \<subseteq> set (cancelled (stopInformer m (gvr_String api g)))"
    by (auto simp: stopInformer_def stop_locked_def split: option.split)
  with Cons [of "stopInformer m (gvr_String api g)"] show ?case by simp
qed simp

lemma start_all_inv: "manager_inv api m \<Longrightarrow> manager_inv api (start_all api mkInf knd nss m gvrs)"
  by (induction gvrs arbitrary: m) (auto intro: startInformer_inv)

lemma stop_all_inv: "manager_inv api m \<Longrightarrow> manager_inv api (stop_all api m gvrs)"
  by (induction gvrs arbitrary: m) (auto intro: stopInformer_inv)

text \<open>An entry of the map is a live router of that name, and each live router has its entry.\<close>

lemma manager_inv_entry:
  assumes "manager_inv api m"
  shows "map_of (minformers m) k = Some c \<longleftrightarrow> (\<exists>r. (c, r) \<in> set (live m) \<and> gvr_String api (Gvr r) = k)"
proof -
  have "distinct (map fst (minformers m))" using assms by (simp add: manager_inv_def wf_map_def)
  then have "map_of (minformers m) k = Some c \<longleftrightarrow> (k, c) \<in># mset (minformers m)" by simp
  also have "\<dots> \<longleftrightarrow> (k, c) \<in> set (map (\<lambda>(c, r). (gvr_String api (Gvr r), c)) (live m))"
    using assms by (metis manager_inv_def set_mset_mset)
  finally show ?thesis by auto
qed

lemma startInformer_live:
  assumes "manager_inv api m"
  shows "live (startInformer api mkInf m g knd nss) = live m \<or>
    (\<exists>c r. live (startInformer api mkInf m g knd nss) = live m @ [(c, r)] \<and>
       Gvr r = g \<and> kind r = knd \<and> namespaces r = (if nss = [] then [[]] else nss))"
proof -
  have "nextctx m \<notin> set (cancelled m)" using assms by (auto simp: manager_inv_def)
  then show ?thesis by (auto simp: startInformer_def live_def NewRouter_def Let_def)
qed

lemma start_all_live:
  assumes "manager_inv api m"
  shows "\<exists>new. live (start_all api mkInf knd nss m gvrs) = live m @ new \<and>
    (\<forall>(c, r) \<in> set new. Gvr r \<in> set gvrs \<and> kind r = knd \<and> namespaces r = (if nss = [] then [[]] else nss))"
  using assms
proof (induction gvrs arbitrary: m)
  case (Cons g gvrs)
  obtain new where "live (start_all api mkInf knd nss m (g # gvrs)) =
      live (startInformer api mkInf m g knd nss) @ new"
    "\<forall>(c, r) \<in> set new. Gvr r \<in> set gvrs \<and> kind r = knd \<and> namespaces r = (if nss = [] then [[]] else nss)"
    using Cons.IH [OF startInformer_inv [OF Cons.prems], of mkInf g knd nss]
    by (elim exE conjE) (simp only: foldl_Cons)
  then show ?case using startInformer_live [OF Cons.prems, of mkInf g knd nss] by fastforce
qed simp

lemma stop_all_live:
  assumes "manager_inv api m"
  shows "set (live (stop_all api m gvrs)) =
    {(c, r) \<in> set (live m). gvr_String api (Gvr r) \<notin> gvr_String api ` set gvrs}"
proof (intro set_eqI iffI)
  let ?m = "stop_all api m gvrs"
  have inv: "manager_inv api ?m" using assms by (rule stop_all_inv)
  {
    fix x
    assume x: "x \<in> set (live ?m)"
    obtain c r where cr: "x = (c, r)" by (cases x)
    have "map_of (minformers ?m) (gvr_String api (Gvr r)) = Some c"
      using manager_inv_entry [OF inv] x cr by blast
    then have "gvr_String api (Gvr r) \<notin> gvr_String api ` set gvrs"
      unfolding stop_all_lookup by (simp split: if_splits)
    moreover have "x \<in> set (live m)" using x stop_all_cancelled [of m api gvrs] by (auto simp: live_def)
    ultimately show "x \<in> {(c, r) \<in> set (live m). gvr_String api (Gvr r) \<notin> gvr_String api ` set gvrs}"
      using cr by simp
  next
    fix x
    assume "x \<in> {(c, r) \<in> set (live m). gvr_String api (Gvr r) \<notin> gvr_String api ` set gvrs}"
    then obtain c r where cr: "x = (c, r)" "(c, r) \<in> set (live m)"
      "gvr_String api (Gvr r) \<notin> gvr_String api ` set gvrs" by auto
    have "map_of (minformers m) (gvr_String api (Gvr r)) = Some c"
      using manager_inv_entry [OF assms] cr(2) by blast
    then have "map_of (minformers ?m) (gvr_String api (Gvr r)) = Some c"
      unfolding stop_all_lookup using cr(3) by simp
    then obtain r' where r': "(c, r') \<in> set (live ?m)" using manager_inv_entry [OF inv] by blast
    have "distinct (map fst (started m))" using assms by (simp add: manager_inv_def)
    moreover have "(c, r) \<in> set (started m)" "(c, r') \<in> set (started m)"
      using cr(2) r' by (auto simp: live_def)
    ultimately have "r' = r" by (metis eq_key_imp_eq_value)
    then show "x \<in> set (live ?m)" using r' cr(1) by simp
  }
qed

text \<open>The handler on the definitions it manages, as one of the two loops.\<close>

lemma manager_on_event_managed:
  assumes "EventTarget ev = MANAGER" "GetKind api (h (Obj ev)) = ''CustomResourceDefinition''"
    and "ExtractGvrkNsFromCrd (h (Obj ev)) = (gvrs, knd, namespaced)"
    and "gvrs \<noteq> [] \<longrightarrow> isManagedGroup (managedGroups m) (Group (hd gvrs))"
  shows "EventType ev = DELETE \<or>
         EventType ev = UPDATE \<and> GetDeletionTimestamp api (h (Obj ev)) \<noteq> None \<Longrightarrow>
         manager_on_event api mkInf h m ev = stop_all api m gvrs"
    and "EventType ev = CREATE \<or>
         EventType ev = UPDATE \<and> GetDeletionTimestamp api (h (Obj ev)) = None \<Longrightarrow>
         manager_on_event api mkInf h m ev =
           start_all api mkInf knd (if namespaced then Namespaces m else []) m gvrs"
  using assms
  by (auto simp: manager_on_event_def handle_gvr_def Let_def intro!: foldl_cong)

subsection \<open>A sample definition\<close>

text \<open>Used by the witnesses below: a definition with two versions in a managed group.\<close>

definition sample_crd :: unstructured where
  "sample_crd = crd_manifest ''core.krateo.io'' ''repos'' ''Repo'' [''v1'', ''vacuum''] True"

definition sample_gvr :: gvr where
  "sample_gvr = \<lparr>Group = ''core.krateo.io'', Version = ''v1'', Resource = ''repos''\<rparr>"

definition sample_manager :: manager where
  "sample_manager =
     \<lparr>resyncInterval = 8, throttlePeriod = 5, Namespaces = [''demo''], minformers = [], managedGroups = [(''core.krateo.io'', ())],
      nextctx = 0, cancelled = [], started = [], pool = [], mgrDone = False\<rparr>"

definition sample_event :: "Operation \<Rightarrow> InformerEvent" where
  "sample_event op = \<lparr>EventName = ''repos.core.krateo.io'', EventType = op, EventTarget = MANAGER,
     Obj = 1, EventResource = ''customresourcedefinitions''\<rparr>"

lemma sample_crd_facts:
  "GetKind sample_api sample_crd = ''CustomResourceDefinition''"
  "GetDeletionTimestamp sample_api sample_crd = None"
  "ExtractGvrkNsFromCrd sample_crd =
     ([sample_gvr, \<lparr>Group = ''core.krateo.io'', Version = ''vacuum'', Resource = ''repos''\<rparr>],
      ''Repo'', True)"
  by (simp_all add: sample_crd_def sample_gvr_def crd_manifest_def sample_defs
      ExtractGvrkNsFromCrd_def Let_def)

lemma sample_gvr_facts:
  "gvr_String sample_api sample_gvr = ''core.krateo.io/v1, Resource=repos''"
  "\<not> gvr_Empty sample_api sample_gvr" "Version sample_gvr \<noteq> ''vacuum''"
  "Group sample_gvr = ''core.krateo.io''"
  by (simp_all add: sample_gvr_def sample_api_def)

subsection \<open>Properties\<close>

text \<open>
  C16: Whatever events the manager receives, and whatever the objects hold when they arrive, its map
  and its routers agree: every router that has been started and not cancelled is in the map under
  its name and with its context, every entry of the map is such a router, no two of them serve the
  same group-version-resource, and the reported number of informers is their number.
\<close>

theorem manager_tracks_routers:
  assumes "NewManager static opts = Ok m"
  shows "manager_inv api (run_all (\<lambda>m (h, ev). manager_on_event api mkInf h m ev) m evs) \<and>
         distinct (map (\<lambda>(c, r). gvr_String api (Gvr r))
           (live (run_all (\<lambda>m (h, ev). manager_on_event api mkInf h m ev) m evs))) \<and>
         length (live (run_all (\<lambda>m (h, ev). manager_on_event api mkInf h m ev) m evs)) =
           GetInformers (run_all (\<lambda>m (h, ev). manager_on_event api mkInf h m ev) m evs)"
proof -
  have "manager_inv api (run_all (\<lambda>m (h, ev). manager_on_event api mkInf h m ev) m evs)"
    by (rule run_all_invariant)
       (auto intro: manager_on_event_inv NewManager_inv [OF assms] split: prod.splits)
  then show ?thesis by (simp add: manager_inv_names manager_inv_live)
qed

theorem manager_tracks_routers_witness:
  "length (live (run_all (\<lambda>m (h, ev). manager_on_event sample_api (\<lambda>g ns. 0) h m ev) sample_manager
     [(\<lambda>_. sample_crd, sample_event UPDATE)])) = 1"
proof -
  let ?m = "run_all (\<lambda>m (h, ev). manager_on_event sample_api (\<lambda>g ns. 0) h m ev) sample_manager
     [(\<lambda>_. sample_crd, sample_event UPDATE)]"
  have "NewManager [(''assets/managed_groups'', ''core.krateo.io'')] 
      \<lparr>mo_ResyncInterval = 8, mo_ThrottlePeriod = 5, mo_Namespaces = [''demo''], mo_WgPool = []\<rparr> =
    Ok sample_manager"
    by code_simp
  from manager_tracks_routers [OF this, of sample_api "\<lambda>g ns. 0" "[(\<lambda>_. sample_crd, sample_event UPDATE)]"]
  have "length (live ?m) = GetInformers ?m" by blast
  also have "\<dots> = 1"
    by (simp add: manager_on_event_def handle_gvr_def sample_event_def sample_crd_facts
        sample_manager_def isManagedGroup_def startInformer_def sample_gvr_facts GetInformers_def
        Let_def)
  finally show ?thesis .
qed

lemma manager_starts:
  assumes "manager_inv api m" "\<not> mgrDone m" and "EventTarget ev = MANAGER"
    and "GetKind api (h (Obj ev)) = ''CustomResourceDefinition''"
    and "ExtractGvrkNsFromCrd (h (Obj ev)) = (gvrs, knd, namespaced)"
    and "isManagedGroup (managedGroups m) (Group (hd gvrs))"
    and "EventType ev = CREATE \<or>
         EventType ev = UPDATE \<and> GetDeletionTimestamp api (h (Obj ev)) = None"
    and "m' = manager_on_event api mkInf h m ev"
  shows "(\<exists>new. running m' = running m @ new \<and>
            (\<forall>(c, r) \<in> set new. Gvr r \<in> set gvrs \<and> kind r = knd \<and>
               namespaces r = (if namespaced \<and> Namespaces m \<noteq> [] then Namespaces m else [[]]))) \<and>
         (\<forall>g \<in> set gvrs. \<not> gvr_Empty api g \<longrightarrow> Version g \<noteq> ''vacuum'' \<longrightarrow>
            (\<exists>c r. (c, r) \<in> set (running m') \<and> gvr_String api (Gvr r) = gvr_String api g))"
proof -
  let ?nss = "if namespaced then Namespaces m else []"
  have m': "m' = start_all api mkInf knd ?nss m gvrs"
    using assms by (simp add: manager_on_event_managed(2))
  have inv: "manager_inv api m'" unfolding m' using assms(1) by (rule start_all_inv)
  have run: "running m = live m" "running m' = live m'" using assms(2) by (simp_all add: running_def m')
  obtain new where new: "live m' = live m @ new"
    "\<forall>(c, r) \<in> set new. Gvr r \<in> set gvrs \<and> kind r = knd \<and> namespaces r = (if ?nss = [] then [[]] else ?nss)"
    unfolding m' using start_all_live [OF assms(1)] by blast
  have "\<exists>c r. (c, r) \<in> set (live m') \<and> gvr_String api (Gvr r) = gvr_String api g"
    if "g \<in> set gvrs" "\<not> gvr_Empty api g" "Version g \<noteq> ''vacuum''" for g
    using manager_inv_entry [OF inv, of "gvr_String api g"] start_all_present [OF that] unfolding m' by fast
  with new show ?thesis unfolding run by (intro conjI exI [of _ new]) auto
qed

text \<open>
  C23: When a definition of a managed group is created, or updated while it is not being deleted,
  a router runs afterwards for each of its versions (but the placeholder version vacuum). The routers
  that run are those that ran before, under the same contexts, and new ones for versions of this
  definition, of its kind, on the manager's namespaces if it is namespaced and on all of them otherwise.
  The map keeps its entries and has one for each of the versions, nothing is cancelled, and delivering
  the same event again changes nothing.
\<close>

theorem manager_starts_versions:
  assumes "manager_inv api m" "\<not> mgrDone m" and "EventTarget ev = MANAGER"
    and "GetKind api (h (Obj ev)) = ''CustomResourceDefinition''"
    and "ExtractGvrkNsFromCrd (h (Obj ev)) = (gvrs, knd, namespaced)"
    and "isManagedGroup (managedGroups m) (Group (hd gvrs))"
    and "EventType ev = CREATE \<or>
         EventType ev = UPDATE \<and> GetDeletionTimestamp api (h (Obj ev)) = None"
    and "m' = manager_on_event api mkInf h m ev"
  shows "(\<exists>new. running m' = running m @ new \<and>
            (\<forall>(c, r) \<in> set new. Gvr r \<in> set gvrs \<and> kind r = knd \<and>
               namespaces r = (if namespaced \<and> Namespaces m \<noteq> [] then Namespaces m else [[]]))) \<and>
         (\<forall>g \<in> set gvrs. \<not> gvr_Empty api g \<longrightarrow> Version g \<noteq> ''vacuum'' \<longrightarrow>
            (\<exists>c r. (c, r) \<in> set (running m') \<and> gvr_String api (Gvr r) = gvr_String api g)) \<and>
         (\<forall>g \<in> set gvrs. \<not> gvr_Empty api g \<and> Version g \<noteq> ''vacuum'' \<longrightarrow>
            map_of (minformers m') (gvr_String api g) \<noteq> None) \<and>
         map_of (minformers m) \<subseteq>\<^sub>m map_of (minformers m') \<and>
         cancelled m' = cancelled m \<and>
         manager_on_event api mkInf h m' ev = m'"
proof -
  let ?nss = "if namespaced then Namespaces m else []"
  have m': "m' = start_all api mkInf knd ?nss m gvrs"
    using assms by (simp add: manager_on_event_managed(2))
  have started: "\<forall>g \<in> set gvrs. \<not> gvr_Empty api g \<and> Version g \<noteq> ''vacuum'' \<longrightarrow>
      map_of (minformers m') (gvr_String api g) \<noteq> None"
    unfolding m' using start_all_present by blast
  have "manager_on_event api mkInf h m' ev = start_all api mkInf knd ?nss m' gvrs"
    using assms(3-7) by (subst manager_on_event_managed(2)) (auto simp: m')
  also have "\<dots> = m'" using started by (intro start_all_id) blast
  finally have again: "manager_on_event api mkInf h m' ev = m'" .
  have keeps: "map_of (minformers m) \<subseteq>\<^sub>m map_of (minformers m')" "cancelled m' = cancelled m"
    using start_all_keeps by (auto simp: m' map_le_def dom_def)
  show ?thesis using manager_starts [OF assms] started keeps again by (intro conjI) (blast | simp)+
qed

lemma sample_manager_inv: "manager_inv sample_api sample_manager" "\<not> mgrDone sample_manager"
  by (simp_all add: manager_inv_def sample_manager_def live_def)

theorem manager_starts_versions_witness:
  "\<exists>c r. (c, r) \<in> set (running (manager_on_event sample_api (\<lambda>g ns. 0) (\<lambda>_. sample_crd) sample_manager
     (sample_event UPDATE))) \<and> gvr_String sample_api (Gvr r) = ''core.krateo.io/v1, Resource=repos''"
proof -
  have ev: "EventTarget (sample_event UPDATE) = MANAGER"
    "EventType (sample_event UPDATE) = CREATE \<or> EventType (sample_event UPDATE) = UPDATE \<and>
       GetDeletionTimestamp sample_api sample_crd = None"
    "isManagedGroup (managedGroups sample_manager)
       (Group (hd [sample_gvr, \<lparr>Group = ''core.krateo.io'', Version = ''vacuum'', Resource = ''repos''\<rparr>]))"
    by (simp_all add: sample_event_def sample_crd_facts sample_manager_def isManagedGroup_def sample_gvr_facts)
  from manager_starts_versions [where h = "\<lambda>_. sample_crd" and mkInf = "\<lambda>g ns. 0", OF sample_manager_inv
      ev(1) sample_crd_facts(1,3) ev(3,2) refl]
  have "\<forall>g \<in> set [sample_gvr, \<lparr>Group = ''core.krateo.io'', Version = ''vacuum'', Resource = ''repos''\<rparr>].
      \<not> gvr_Empty sample_api g \<longrightarrow> Version g \<noteq> ''vacuum'' \<longrightarrow>
      (\<exists>c r. (c, r) \<in> set (running (manager_on_event sample_api (\<lambda>g ns. 0) (\<lambda>_. sample_crd) sample_manager
        (sample_event UPDATE))) \<and> gvr_String sample_api (Gvr r) = gvr_String sample_api g)" by blast
  then show ?thesis using sample_gvr_facts(1-3) by simp
qed

text \<open>
  C24: When a definition of a managed group is deleted, or updated with a deletion timestamp, the routers
  of its versions stop: those that run afterwards are exactly those that ran before and serve another
  resource; the context of every stopped one is cancelled; and the entries of the versions, and only
  they, are gone from the map.
\<close>

theorem manager_stops_versions:
  assumes "manager_inv api m" and "EventTarget ev = MANAGER"
    and "GetKind api (h (Obj ev)) = ''CustomResourceDefinition''"
    and "ExtractGvrkNsFromCrd (h (Obj ev)) = (gvrs, knd, namespaced)"
    and "isManagedGroup (managedGroups m) (Group (hd gvrs))"
    and "EventType ev = DELETE \<or>
         EventType ev = UPDATE \<and> GetDeletionTimestamp api (h (Obj ev)) \<noteq> None"
    and "m' = manager_on_event api mkInf h m ev"
  shows "set (running m') = {(c, r) \<in> set (running m). gvr_String api (Gvr r) \<notin> gvr_String api ` set gvrs} \<and>
         (\<forall>(c, r) \<in> set (live m). gvr_String api (Gvr r) \<in> gvr_String api ` set gvrs \<longrightarrow> c \<in> set (cancelled m')) \<and>
         map_of (minformers m') k =
           (if k \<in> gvr_String api ` set gvrs then None else map_of (minformers m) k)"
proof -
  have m': "m' = stop_all api m gvrs" using assms by (simp add: manager_on_event_managed(1))
  have live: "set (live m') = {(c, r) \<in> set (live m). gvr_String api (Gvr r) \<notin> gvr_String api ` set gvrs}"
    unfolding m' using assms(1) by (rule stop_all_live)
  have "c \<in> set (cancelled m')"
    if "(c, r) \<in> set (live m)" "gvr_String api (Gvr r) \<in> gvr_String api ` set gvrs" for c r
  proof (rule ccontr)
    assume "c \<notin> set (cancelled m')"
    then have "(c, r) \<in> set (live m')" using that(1) by (simp add: live_def m')
    then show False using live that(2) by auto
  qed
  moreover have "set (running m') =
      {(c, r) \<in> set (running m). gvr_String api (Gvr r) \<notin> gvr_String api ` set gvrs}"
    using live by (simp add: running_def m')
  ultimately show ?thesis by (auto simp: m' stop_all_lookup)
qed

theorem manager_stops_versions_witness:
  "\<exists>c r m. (c, r) \<in> set (running m) \<and> gvr_String sample_api (Gvr r) = ''core.krateo.io/v1, Resource=repos'' \<and>
     (c, r) \<notin> set (running (manager_on_event sample_api (\<lambda>g ns. 0) (\<lambda>_. sample_crd) m (sample_event DELETE)))"
proof -
  let ?m = "startInformer sample_api (\<lambda>g ns. 0) sample_manager sample_gvr ''Repo'' []"
  have inv: "manager_inv sample_api ?m" using sample_manager_inv(1) by (rule startInformer_inv)
  obtain c r where cr: "(c, r) \<in> set (running ?m)" "Gvr r = sample_gvr"
    by (simp add: startInformer_def sample_gvr_facts sample_manager_def live_def running_def NewRouter_def Let_def)
  have ev: "EventTarget (sample_event DELETE) = MANAGER"
    "EventType (sample_event DELETE) = DELETE \<or> EventType (sample_event DELETE) = UPDATE \<and>
       GetDeletionTimestamp sample_api sample_crd \<noteq> None"
    "isManagedGroup (managedGroups ?m)
       (Group (hd [sample_gvr, \<lparr>Group = ''core.krateo.io'', Version = ''vacuum'', Resource = ''repos''\<rparr>]))"
    by (simp_all add: sample_event_def sample_manager_def isManagedGroup_def sample_gvr_facts)
  from manager_stops_versions [where h = "\<lambda>_. sample_crd" and mkInf = "\<lambda>g ns. 0", OF inv ev(1)
      sample_crd_facts(1,3) ev(3,2) refl] cr
  have "(c, r) \<notin> set (running (manager_on_event sample_api (\<lambda>g ns. 0) (\<lambda>_. sample_crd) ?m (sample_event DELETE)))"
    by auto
  then show ?thesis using cr sample_gvr_facts(1) by metis
qed

text \<open>
  Definitions of other groups are ignored: the group of every version equals that of the first
  one, and when it is not a managed group the manager does not change.
\<close>

theorem manager_ignores_unmanaged:
  assumes "g \<in> set (fst (ExtractGvrkNsFromCrd (h (Obj ev))))"
    and "\<not> isManagedGroup (managedGroups m) (Group g)"
  shows "manager_on_event api mkInf h m ev = m"
proof -
  obtain gvrs knd ns where e: "ExtractGvrkNsFromCrd (h (Obj ev)) = (gvrs, knd, ns)"
    by (metis prod_cases3)
  with assms(1) have "Group (hd gvrs) = Group g" and "gvrs \<noteq> []"
    using ExtractGvrk_same_group [of g "h (Obj ev)"] by auto
  with assms(2) e show ?thesis by (simp add: manager_on_event_def)
qed

theorem manager_ignores_unmanaged_witness:
  "manager_on_event sample_api (\<lambda>g ns. 0)
     (\<lambda>_. crd_manifest ''apps.example.com'' ''ps'' ''P'' [''v1''] True) sample_manager
     (sample_event UPDATE) = sample_manager"
  by (rule manager_ignores_unmanaged
        [where g = "\<lparr>Group = ''apps.example.com'', Version = ''v1'', Resource = ''ps''\<rparr>"])
     (simp_all add: crd_manifest_def ExtractGvrkNsFromCrd_def sample_manager_def isManagedGroup_def
       Let_def)

text \<open>
  A group is managed exactly when it is a non-empty line of the embedded file, after removing
  surrounding white space; blank lines and repetitions do not matter.
\<close>

theorem parse_isManagedGroup:
  "isManagedGroup (parse content) g \<longleftrightarrow>
     g \<noteq> [] \<and> (\<exists>line \<in> set (strings_Split content CHR 0x0A). strings_TrimSpace line = g)"
  by (auto simp: isManagedGroup_def parse_def parse_lines_lookup)

text \<open>
  C37: The lookup of \<^verbatim>\<open>stopInformer\<close> is outside the lock, and this loses routers when handlers
  overlap. Let a router run for a resource. If one stop has looked its cancel function up, then
  another stop and a start of the same resource run to completion, and then the first stop enters
  its locked section, the newly started router keeps running but is no longer in the map; the next
  start gives the resource a second running router.
\<close>

theorem stopInformer_race:
  assumes "manager_inv api m" and "stop_lookup m (gvr_String api g) = Some c"
    and "\<not> gvr_Empty api g" and "Version g \<noteq> ''vacuum''"
    and "m1 = startInformer api mkInf (stopInformer m (gvr_String api g)) g knd nss"
    and "m2 = stop_locked m1 (gvr_String api g) c"
    and "m3 = startInformer api mkInf m2 g knd nss"
  shows "map_of (minformers m2) (gvr_String api g) = None \<and>
         (\<exists>r. Gvr r = g \<and> (nextctx m, r) \<in> set (live m2)) \<and>
         (\<exists>c1 r1 c2 r2. c1 \<noteq> c2 \<and> (c1, r1) \<in> set (live m3) \<and> (c2, r2) \<in> set (live m3) \<and>
            Gvr r1 = g \<and> Gvr r2 = g)"
proof -
  let ?k = "gvr_String api g"
  let ?r = "fst (NewRouter mkInf \<lparr>opt_Namespaces = nss, opt_Gvr = g, opt_Kind = knd\<rparr> (Some (pool m)))"
  from assms(1,2) have c: "c \<noteq> nextctx m" "nextctx m \<notin> set (cancelled m)"
      "Suc (nextctx m) \<notin> set (cancelled m)"
    using manager_inv_ctx_lt [OF assms(1)] by (auto simp: stop_lookup_def manager_inv_def)
  have c': "c \<noteq> Suc (nextctx m)"
    using assms(1,2) manager_inv_ctx_lt [OF assms(1)] by (force simp: stop_lookup_def)
  have st: "stopInformer m ?k = stop_locked m ?k c"
    using assms(2) by (simp add: stopInformer_def)
  have m1: "m1 = (stop_locked m ?k c)\<lparr>nextctx := Suc (nextctx m),
      minformers := AList.update ?k (nextctx m) (AList.delete ?k (minformers m)),
      started := started m @ [(nextctx m, ?r)], pool := pool m1\<rparr>"
    unfolding assms(5) st using assms(3,4)
    by (simp add: startInformer_def stop_locked_def delete_conv' Let_def)
  have m2: "started m2 = started m @ [(nextctx m, ?r)]" "cancelled m2 = c # c # cancelled m"
      "nextctx m2 = Suc (nextctx m)" "map_of (minformers m2) ?k = None"
    unfolding assms(6) by (subst m1; simp add: stop_locked_def delete_conv')+
  obtain r' where m3: "started m3 = started m2 @ [(Suc (nextctx m), r')]" "Gvr r' = g"
      "cancelled m3 = cancelled m2"
    unfolding assms(7) using assms(3,4) m2 by (auto simp: startInformer_def Let_def)
  have "(nextctx m, ?r) \<in> set (live m2)" "(nextctx m, ?r) \<in> set (live m3)"
      "(Suc (nextctx m), r') \<in> set (live m3)"
    using c c' by (auto simp: live_def m2 m3)
  moreover have "Gvr ?r = g" by simp
  ultimately show ?thesis using m2(4) m3(2) by (metis n_not_Suc_n)
qed

theorem stopInformer_race_witness:
  "\<exists>m c m1 m2. manager_inv sample_api m \<and> stop_lookup m ''core.krateo.io/v1, Resource=repos'' = Some c \<and>
     m1 = startInformer sample_api (\<lambda>g ns. 0) (stopInformer m ''core.krateo.io/v1, Resource=repos'')
            sample_gvr ''Repo'' [] \<and>
     m2 = stop_locked m1 ''core.krateo.io/v1, Resource=repos'' c \<and>
     (\<exists>r. Gvr r = sample_gvr \<and> (nextctx m, r) \<in> set (live m2)) \<and>
     map_of (minformers m2) ''core.krateo.io/v1, Resource=repos'' = None"
proof -
  let ?k = "''core.krateo.io/v1, Resource=repos''"
  let ?m = "startInformer sample_api (\<lambda>g ns. 0) sample_manager sample_gvr ''Repo'' []"
  let ?m1 = "startInformer sample_api (\<lambda>g ns. 0) (stopInformer ?m ?k) sample_gvr ''Repo'' []"
  have i: "manager_inv sample_api ?m"
    by (rule startInformer_inv) (simp add: manager_inv_def sample_manager_def live_def)
  have l: "stop_lookup ?m ?k = Some 0"
    by (simp add: stop_lookup_def startInformer_def sample_gvr_facts sample_manager_def Let_def)
  show ?thesis
    using stopInformer_race [of sample_api ?m sample_gvr 0 ?m1 "\<lambda>g ns. 0" "''Repo''" "[]" _ _,
        OF i _ _ _ _ refl refl] l i
    by (simp add: sample_gvr_facts) blast
qed

end
