(* ===== verification/WorkPoolRun.thy ===== *)
theory WorkPoolRun
  imports WorkPool GoChan
begin

text \<open>
  \<^verbatim>\<open>WorkerPool\<close> of \<^verbatim>\<open>internal/router/workpool.go\<close> at run time: \<^verbatim>\<open>Start\<close> spawns the workers, which loop
  over \<^verbatim>\<open>processNext\<close>, and \<^verbatim>\<open>Wait\<close> shuts the queue down and joins them. The goroutines interleave; one
  step is one call on the queue or the wait group, or the work between \<^verbatim>\<open>Get\<close> and the end of
  \<^verbatim>\<open>processNext\<close>.
\<close>

subsection \<open>The pool\<close>

text \<open>The handler is an argument of the steps; the mutexes and the logger have no counterpart.\<close>

record 'q WorkerPool =
  wp_queue :: 'q
  wp_workers :: int
  wp_informers :: informer_table
  wp_wg :: nat
  wp_metrics :: "Metrics option"

definition NewWorkerPool :: "'q \<Rightarrow> int \<Rightarrow> Metrics option \<Rightarrow> 'q WorkerPool" where
  "NewWorkerPool queue workers metrics =
     \<lparr>wp_queue = queue, wp_workers = workers, wp_informers = [], wp_wg = 0, wp_metrics = metrics\<rparr>"

text \<open>A worker goroutine: before \<^verbatim>\<open>Get\<close>, with an item, or returned.\<close>

datatype worker_pc = AtGet | HasItem QueueItem | Returned

text \<open>\<^verbatim>\<open>Start\<close>: in its loop, waiting for the stop channel, returned.\<close>

datatype start_pc = InLoop int | AtStop | StartReturned

text \<open>\<^verbatim>\<open>Wait\<close>: not called, past \<^verbatim>\<open>ShutDown\<close>, returned.\<close>

datatype wait_pc = NotCalled | AtWait | WaitReturned

record 'q wp_state =
  wpool :: "'q WorkerPool"
  gos :: "worker_pc list"
  at_start :: start_pc
  at_wait :: wait_pc
  stop_closed :: bool    \<comment> \<open>the channel \<^verbatim>\<open>Start\<close> is given is closed\<close>
  wheap :: oheap
  published :: "InformerEvent list"
  crashed :: bool

definition wp_init :: "'q \<Rightarrow> int \<Rightarrow> Metrics option \<Rightarrow> oheap \<Rightarrow> 'q wp_state" where
  "wp_init q n m h =
     \<lparr>wpool = NewWorkerPool q n m, gos = [], at_start = InLoop 0, at_wait = NotCalled, stop_closed = False,
      wheap = h, published = [], crashed = False\<rparr>"

inductive wp_step ::
  "kube_api \<Rightarrow> (oheap \<Rightarrow> objref option \<Rightarrow> Operation \<Rightarrow> Target \<Rightarrow> string \<Rightarrow> InformerEvent list) \<Rightarrow>
     (informer \<Rightarrow> string \<Rightarrow> goerror + anyobj option) \<Rightarrow> 'q workqueue \<Rightarrow>
     'q wp_state \<Rightarrow> 'q wp_state \<Rightarrow> bool"
  for api handle store wq
where
  wp_spawn: "\<not> crashed s \<Longrightarrow> at_start s = InLoop i \<Longrightarrow> i < wp_workers (wpool s) \<Longrightarrow>
    wp_step api handle store wq s
      (s\<lparr>gos := gos s @ [AtGet], wpool := (wpool s)\<lparr>wp_wg := Suc (wp_wg (wpool s))\<rparr>,
         at_start := InLoop (i + 1)\<rparr>)"
| wp_spawned: "\<not> crashed s \<Longrightarrow> at_start s = InLoop i \<Longrightarrow> \<not> i < wp_workers (wpool s) \<Longrightarrow>
    wp_step api handle store wq s (s\<lparr>at_start := AtStop\<rparr>)"
| wp_stop: "\<not> crashed s \<Longrightarrow> at_start s = AtStop \<Longrightarrow> stop_closed s \<Longrightarrow>
    wp_step api handle store wq s (s\<lparr>at_start := StartReturned\<rparr>)"
| wp_get: "\<not> crashed s \<Longrightarrow> k < length (gos s) \<Longrightarrow> gos s ! k = AtGet \<Longrightarrow>
    wq_Get wq (wp_queue (wpool s)) = Some (Some item, q) \<Longrightarrow>
    wp_step api handle store wq s
      (s\<lparr>gos := (gos s)[k := HasItem item], wpool := (wpool s)\<lparr>wp_queue := q\<rparr>\<rparr>)"
| wp_shut: "\<not> crashed s \<Longrightarrow> k < length (gos s) \<Longrightarrow> gos s ! k = AtGet \<Longrightarrow>
    wq_Get wq (wp_queue (wpool s)) = Some (None, q) \<Longrightarrow>
    wp_step api handle store wq s
      (s\<lparr>gos := (gos s)[k := Returned],
         wpool := (wpool s)\<lparr>wp_queue := q, wp_wg := wp_wg (wpool s) - 1\<rparr>\<rparr>)"
| wp_process: "\<not> crashed s \<Longrightarrow> k < length (gos s) \<Longrightarrow> gos s ! k = HasItem item \<Longrightarrow>
    process_item api handle store wq (wheap s) (wp_informers (wpool s)) (wp_queue (wpool s))
      (wp_metrics (wpool s)) item = Ok (q, m, evs) \<Longrightarrow>
    wp_step api handle store wq s
      (s\<lparr>gos := (gos s)[k := AtGet], wpool := (wpool s)\<lparr>wp_queue := q, wp_metrics := m\<rparr>,
         published := published s @ evs\<rparr>)"
| wp_crash: "\<not> crashed s \<Longrightarrow> k < length (gos s) \<Longrightarrow> gos s ! k = HasItem item \<Longrightarrow>
    process_item api handle store wq (wheap s) (wp_informers (wpool s)) (wp_queue (wpool s))
      (wp_metrics (wpool s)) item = Panic e \<Longrightarrow>
    wp_step api handle store wq s (s\<lparr>crashed := True\<rparr>)"
| wp_Wait: "\<not> crashed s \<Longrightarrow> at_wait s = NotCalled \<Longrightarrow>
    wp_step api handle store wq s
      (s\<lparr>wpool := (wpool s)\<lparr>wp_queue := wq_ShutDown wq (wp_queue (wpool s))\<rparr>, at_wait := AtWait\<rparr>)"
| wp_joined: "\<not> crashed s \<Longrightarrow> at_wait s = AtWait \<Longrightarrow> wp_wg (wpool s) = 0 \<Longrightarrow>
    wp_step api handle store wq s (s\<lparr>at_wait := WaitReturned\<rparr>)"

text \<open>
  The rest of the program meanwhile: informers add items, routers register informers, objects
  change, and the stop channel is closed.
\<close>

inductive wp_env :: "'q workqueue \<Rightarrow> 'q wp_state \<Rightarrow> 'q wp_state \<Rightarrow> bool"
  for wq
where
  env_add: "wp_env wq s (s\<lparr>wpool := (wpool s)\<lparr>wp_queue := wq_Add wq (wp_queue (wpool s)) item\<rparr>\<rparr>)"
| env_register: "wp_env wq s
    (s\<lparr>wpool := (wpool s)\<lparr>wp_informers := RegisterInformer (wp_informers (wpool s)) g ns k ifm\<rparr>\<rparr>)"
| env_objects: "wp_env wq s (s\<lparr>wheap := h\<rparr>)"
| env_stop: "wp_env wq s (s\<lparr>stop_closed := True\<rparr>)"

text \<open>A run, with the number of the pool's own steps.\<close>

inductive wp_run ::
  "kube_api \<Rightarrow> (oheap \<Rightarrow> objref option \<Rightarrow> Operation \<Rightarrow> Target \<Rightarrow> string \<Rightarrow> InformerEvent list) \<Rightarrow>
     (informer \<Rightarrow> string \<Rightarrow> goerror + anyobj option) \<Rightarrow> 'q workqueue \<Rightarrow>
     nat \<Rightarrow> 'q wp_state \<Rightarrow> 'q wp_state \<Rightarrow> bool"
  for api handle store wq
where
  run_here: "wp_run api handle store wq 0 s s"
| run_pool: "wp_run api handle store wq n s t \<Longrightarrow> wp_step api handle store wq t u \<Longrightarrow>
    wp_run api handle store wq (Suc n) s u"
| run_env: "wp_run api handle store wq n s t \<Longrightarrow> wp_env wq t u \<Longrightarrow> wp_run api handle store wq n s u"

subsection \<open>What the queue promises\<close>

text \<open>
  Documented of \<^verbatim>\<open>ShutDown\<close>: from then on new items are ignored and workers are told to exit, so that
  \<^verbatim>\<open>Get\<close> does not block any more and hands out at most the items that are there. \<open>shut\<close> says that the
  queue is shut down, \<open>pending\<close> counts the items it may still hand out; items that are being
  processed and have been added again are among them.
\<close>

definition drains :: "('q \<Rightarrow> bool) \<Rightarrow> ('q \<Rightarrow> nat) \<Rightarrow> ('q \<Rightarrow> QueueItem \<Rightarrow> 'q) \<Rightarrow> bool" where
  "drains shut pending f \<longleftrightarrow> (\<forall>q i. shut q \<longrightarrow> shut (f q i) \<and> pending (f q i) \<le> pending q)"

definition drain_law :: "'q workqueue \<Rightarrow> ('q \<Rightarrow> bool) \<Rightarrow> ('q \<Rightarrow> nat) \<Rightarrow> bool" where
  "drain_law wq shut pending \<longleftrightarrow>
     (\<forall>q. shut (wq_ShutDown wq q)) \<and>
     (\<forall>q. shut q \<longrightarrow> wq_Get wq q \<noteq> None) \<and>
     (\<forall>q i q'. shut q \<longrightarrow> wq_Get wq q = Some (i, q') \<longrightarrow> shut q' \<and>
        pending q' + (if i = None then 0 else 1) \<le> pending q) \<and>
     (\<forall>q. shut q \<longrightarrow> pending (wq_ShutDown wq q) \<le> pending q) \<and>
     drains shut pending (wq_Done wq) \<and> drains shut pending (wq_Forget wq) \<and>
     drains shut pending (wq_AddRateLimited wq) \<and> drains shut pending (wq_Add wq)"

subsection \<open>Invariant and measure\<close>

definition live_workers :: "worker_pc list \<Rightarrow> nat" where
  "live_workers ps = length (filter (\<lambda>p. p \<noteq> Returned) ps)"

text \<open>
  The wait group counts the workers that have not returned, and \<^verbatim>\<open>Start\<close> returns only after the stop.
\<close>

definition wp_inv :: "'q wp_state \<Rightarrow> bool" where
  "wp_inv s \<longleftrightarrow> wp_wg (wpool s) = live_workers (gos s) \<and> (at_start s = StartReturned \<longrightarrow> stop_closed s)"

fun pc_work :: "worker_pc \<Rightarrow> nat" where
  "pc_work AtGet = 1"
| "pc_work (HasItem i) = 2"
| "pc_work Returned = 0"

fun start_work :: "int \<Rightarrow> start_pc \<Rightarrow> nat" where
  "start_work n (InLoop i) = 2 * nat (n - i) + 2"
| "start_work n AtStop = 1"
| "start_work n StartReturned = 0"

fun wait_work :: "wait_pc \<Rightarrow> nat" where
  "wait_work NotCalled = 2"
| "wait_work AtWait = 1"
| "wait_work WaitReturned = 0"

definition wp_work :: "('q \<Rightarrow> nat) \<Rightarrow> 'q wp_state \<Rightarrow> nat" where
  "wp_work pending s =
     2 * pending (wp_queue (wpool s)) + sum_list (map pc_work (gos s)) +
     start_work (wp_workers (wpool s)) (at_start s) + wait_work (at_wait s) + (if crashed s then 0 else 1)"

text \<open>All goroutines have returned, but that \<^verbatim>\<open>Start\<close> waits for its channel as long as that is open.\<close>

definition finished :: "'q wp_state \<Rightarrow> bool" where
  "finished s \<longleftrightarrow> set (gos s) \<subseteq> {Returned} \<and> at_wait s = WaitReturned \<and>
     at_start s = (if stop_closed s then StartReturned else AtStop)"

lemma sum_pc_work_update:
  "k < length ps \<Longrightarrow> sum_list (map pc_work (ps[k := p])) + pc_work (ps ! k) = sum_list (map pc_work ps) + pc_work p"
  by (rule sum_list_map_update)

lemma live_workers_update:
  "k < length ps \<Longrightarrow> ps ! k \<noteq> Returned \<Longrightarrow>
     live_workers (ps[k := p]) = (if p = Returned then live_workers ps - 1 else live_workers ps)"
proof (induction ps arbitrary: k)
  case Nil
  then show ?case by simp
next
  case (Cons q ps)
  have "ps ! j \<noteq> Returned \<Longrightarrow> j < length ps \<Longrightarrow> 0 < live_workers ps" for j
    by (auto simp: live_workers_def filter_empty_conv)
  with Cons show ?case
    by (cases k) (fastforce simp: live_workers_def)+
qed

lemma live_workers_append [simp]: "live_workers (ps @ [p]) = live_workers ps + (if p = Returned then 0 else 1)"
  by (simp add: live_workers_def)

lemma live_workers_0: "live_workers ps = 0 \<longleftrightarrow> set ps \<subseteq> {Returned}"
  by (auto simp: live_workers_def filter_empty_conv)

lemma wp_inv_step: "wp_step api handle store wq s t \<Longrightarrow> wp_inv s \<Longrightarrow> wp_inv t"
  by (induction rule: wp_step.induct) (auto simp: wp_inv_def live_workers_update)

lemma wp_inv_env: "wp_env wq s t \<Longrightarrow> wp_inv s \<Longrightarrow> wp_inv t"
  by (induction rule: wp_env.induct) (auto simp: wp_inv_def)

lemma drain_lawD:
  assumes "drain_law wq shut pending"
  shows "shut (wq_ShutDown wq q)"
    and "shut q \<Longrightarrow> \<exists>i q'. wq_Get wq q = Some (i, q')"
    and "shut q \<Longrightarrow> wq_Get wq q = Some (i, q') \<Longrightarrow>
           shut q' \<and> pending q' + (if i = None then 0 else 1) \<le> pending q"
    and "shut q \<Longrightarrow> pending (wq_ShutDown wq q) \<le> pending q"
    and "drains shut pending (wq_Done wq)" and "drains shut pending (wq_Forget wq)"
    and "drains shut pending (wq_AddRateLimited wq)" and "drains shut pending (wq_Add wq)"
proof -
  note l = assms[unfolded drain_law_def]
  show "shut (wq_ShutDown wq q)" using l by simp
  show "shut q \<Longrightarrow> \<exists>i q'. wq_Get wq q = Some (i, q')" using l by auto
  show "shut q \<Longrightarrow> wq_Get wq q = Some (i, q') \<Longrightarrow>
      shut q' \<and> pending q' + (if i = None then 0 else 1) \<le> pending q" using l by blast
  show "shut q \<Longrightarrow> pending (wq_ShutDown wq q) \<le> pending q" using l by simp
qed (use assms in \<open>simp_all add: drain_law_def\<close>)

lemma settle_drains:
  assumes "drain_law wq shut pending" and "shut q"
  shows "shut (settle_item wq q item b) \<and> pending (settle_item wq q item b) \<le> pending q"
proof -
  have "shut (wq_Done wq (f q item) item) \<and> pending (wq_Done wq (f q item) item) \<le> pending q"
    if "drains shut pending f" for f
    using that drain_lawD(5) [OF assms(1)] assms(2) unfolding drains_def by (meson le_trans)
  then show ?thesis using drain_lawD(6,7) [OF assms(1)] by (simp add: settle_item_def)
qed

lemma process_drains:
  assumes "drain_law wq shut pending" and "shut q"
    and "process_item api handle store wq h infs q m item = Ok (q', m', evs)"
  shows "shut q' \<and> pending q' \<le> pending q"
  using assms(3) settle_drains [OF assms(1,2)] by (auto simp: process_item_def split: outcome.splits)

lemma process_not_Err: "process_item api handle store wq h infs q m item \<noteq> Err e"
  by (auto simp: process_item_def split: outcome.splits)

text \<open>After a shutdown every step of the pool lowers the measure, and the rest of the program does not raise it.\<close>

lemma wp_step_work:
  assumes "drain_law wq shut pending" and "wp_step api handle store wq s t"
    and "shut (wp_queue (wpool s))"
  shows "shut (wp_queue (wpool t)) \<and> wp_work pending t < wp_work pending s"
  using assms(2)
proof cases
  case (wp_get k item q)
  then show ?thesis
    using drain_lawD(3) [OF assms(1,3), of "Some item" q] sum_pc_work_update [of k "gos s" "HasItem item"]
    by (simp add: wp_work_def)
next
  case (wp_shut k q)
  then show ?thesis
    using drain_lawD(3) [OF assms(1,3), of None q] sum_pc_work_update [of k "gos s" Returned]
    by (simp add: wp_work_def)
next
  case (wp_process k item q m evs)
  then show ?thesis
    using process_drains [OF assms(1,3) wp_process(5)] sum_pc_work_update [of k "gos s" AtGet]
    by (simp add: wp_work_def)
next
  case wp_Wait
  then show ?thesis
    using drain_lawD(1) [OF assms(1), of "wp_queue (wpool s)"] drain_lawD(4) [OF assms(1,3)]
    by (simp add: wp_work_def)
next
  case (wp_spawn i)
  moreover from this have "nat (wp_workers (wpool s) - i) = Suc (nat (wp_workers (wpool s) - (i + 1)))"
    by simp
  ultimately show ?thesis using assms(3) by (simp add: wp_work_def)
next
  case (wp_spawned i)
  then show ?thesis using assms(3) by (simp add: wp_work_def)
next
  case wp_stop
  then show ?thesis using assms(3) by (simp add: wp_work_def)
next
  case (wp_crash k item e)
  then show ?thesis using assms(3) by (simp add: wp_work_def)
next
  case wp_joined
  then show ?thesis using assms(3) by (simp add: wp_work_def)
qed

lemma wp_env_work:
  assumes "drain_law wq shut pending" and "wp_env wq s t" and "shut (wp_queue (wpool s))"
  shows "shut (wp_queue (wpool t)) \<and> wp_work pending t \<le> wp_work pending s"
  using assms(2) by cases (use drain_lawD(8) [OF assms(1)] assms(3) in \<open>auto simp: wp_work_def drains_def\<close>)

text \<open>And as long as the pool is not finished it can move.\<close>

lemma wp_can_step:
  assumes "drain_law wq shut pending" and "wp_inv s" and "shut (wp_queue (wpool s))"
    and "\<not> crashed s" and "\<not> finished s"
  shows "\<exists>t. wp_step api handle store wq s t"
proof (cases "set (gos s) \<subseteq> {Returned}")
  case True
  then have "wp_wg (wpool s) = 0" using assms(2) by (simp add: wp_inv_def live_workers_0)
  moreover have "\<exists>t. wp_step api handle store wq s t" if "at_start s = InLoop i" for i
    using wp_spawn [OF assms(4) that] wp_spawned [OF assms(4) that] by blast
  moreover have "\<exists>t. wp_step api handle store wq s t" if "at_start s = AtStop" "stop_closed s"
    using wp_stop [OF assms(4) that] by blast
  moreover have "at_start s = StartReturned \<longrightarrow> stop_closed s" using assms(2) by (simp add: wp_inv_def)
  ultimately show ?thesis
    using assms(4,5) True wp_Wait [OF assms(4), of api handle store wq]
      wp_joined [OF assms(4), of api handle store wq]
    by (cases "at_start s"; cases "at_wait s") (auto simp: finished_def split: if_splits)
next
  case False
  then obtain k where k: "k < length (gos s)" "gos s ! k \<noteq> Returned"
    by (auto simp: in_set_conv_nth subset_iff)
  show ?thesis
  proof (cases "gos s ! k")
    case AtGet
    from drain_lawD(2) [OF assms(1,3)] obtain i q where "wq_Get wq (wp_queue (wpool s)) = Some (i, q)"
      by blast
    then show ?thesis using wp_get [OF assms(4) k(1) AtGet] wp_shut [OF assms(4) k(1) AtGet]
      by (cases i) blast+
  next
    case (HasItem item)
    let ?r = "process_item api handle store wq (wheap s) (wp_informers (wpool s)) (wp_queue (wpool s))
      (wp_metrics (wpool s)) item"
    show ?thesis
      using wp_process [OF assms(4) k(1) HasItem] wp_crash [OF assms(4) k(1) HasItem] process_not_Err
      by (cases ?r) fastforce+
  qed (use k in simp)
qed

lemma wp_run_drains:
  assumes "drain_law wq shut pending" and "wp_run api handle store wq n s t"
    and "wp_inv s" and "shut (wp_queue (wpool s))"
  shows "wp_inv t \<and> shut (wp_queue (wpool t)) \<and> n + wp_work pending t \<le> wp_work pending s"
  using assms(2-)
proof (induction rule: wp_run.induct)
  case (run_pool n s t u)
  then show ?case using wp_step_work [OF assms(1) run_pool.hyps(2)] wp_inv_step by fastforce
next
  case (run_env n s t u)
  then show ?case using wp_env_work [OF assms(1) run_env.hyps(2)] wp_inv_env by fastforce
qed simp

lemma wp_run_append:
  "wp_run api handle store wq k t u \<Longrightarrow> wp_run api handle store wq n s t \<Longrightarrow>
     wp_run api handle store wq (n + k) s u"
  by (induction rule: wp_run.induct) (auto intro: wp_run.intros)

lemma wp_run_inv: "wp_run api handle store wq n s t \<Longrightarrow> wp_inv s \<Longrightarrow> wp_inv t"
  by (induction rule: wp_run.induct) (auto intro: wp_inv_step wp_inv_env)

lemma wp_inv_init: "wp_inv (wp_init q n m h)"
  by (simp add: wp_inv_def wp_init_def NewWorkerPool_def live_workers_def)

lemma wp_run_stop: "wp_run api handle store wq n s t \<Longrightarrow> stop_closed s \<Longrightarrow> stop_closed t"
proof (induction rule: wp_run.induct)
  case (run_pool n s t u)
  from run_pool.hyps(2) run_pool.IH [OF run_pool.prems] show ?case by cases auto
next
  case (run_env n s t u)
  from run_env.hyps(2) run_env.IH [OF run_env.prems] show ?case by cases auto
qed simp

lemma wp_completes:
  assumes "drain_law wq shut pending" and "wp_inv s" and "shut (wp_queue (wpool s))"
  shows "\<exists>n t. wp_run api handle store wq n s t \<and> (crashed t \<or> finished t)"
  using assms(2,3)
proof (induction "wp_work pending s" arbitrary: s rule: less_induct)
  case less
  show ?case
  proof (cases "crashed s \<or> finished s")
    case True
    then show ?thesis using run_here [of api handle store wq s] by blast
  next
    case False
    then obtain u where u: "wp_step api handle store wq s u"
      using wp_can_step [OF assms(1) less.prems] by blast
    from wp_step_work [OF assms(1) u less.prems(2)] wp_inv_step [OF u less.prems(1)]
    obtain n t where "wp_run api handle store wq n u t" "crashed t \<or> finished t"
      using less.hyps [of u] by blast
    then show ?thesis using wp_run_append [OF _ run_pool [OF run_here u]] by blast
  qed
qed

text \<open>Once the loop of \<^verbatim>\<open>Start\<close> is over no worker is added, and \<^verbatim>\<open>Wait\<close> returns with the last one.\<close>

definition joined :: "'q wp_state \<Rightarrow> bool" where
  "joined s \<longleftrightarrow> (\<forall>i. at_start s \<noteq> InLoop i) \<and> (at_wait s = WaitReturned \<longrightarrow> set (gos s) \<subseteq> {Returned})"

lemma joined_step:
  assumes "wp_step api handle store wq s t" and "wp_inv s" and "joined s"
  shows "joined t \<and> (at_wait s = WaitReturned \<longrightarrow> published t = published s \<and> at_wait t = WaitReturned)"
  using assms(1)
  by cases (use assms(2,3) in \<open>auto simp: joined_def wp_inv_def live_workers_0 in_set_conv_nth subset_iff\<close>)

lemma joined_env: "wp_env wq s t \<Longrightarrow> joined s \<Longrightarrow>
    joined t \<and> (at_wait s = WaitReturned \<longrightarrow> published t = published s \<and> at_wait t = WaitReturned)"
  by (induction rule: wp_env.induct) (auto simp: joined_def)

lemma joined_run:
  assumes "wp_run api handle store wq n s t" and "wp_inv s" and "joined s"
  shows "wp_inv t \<and> joined t \<and>
    (at_wait s = WaitReturned \<longrightarrow> published t = published s \<and> at_wait t = WaitReturned)"
  using assms
proof (induction rule: wp_run.induct)
  case (run_pool n s t u)
  then show ?case
    using joined_step [OF run_pool.hyps(2)] wp_inv_step [OF run_pool.hyps(2)] by auto
next
  case (run_env n s t u)
  then show ?case using joined_env [OF run_env.hyps(2)] wp_inv_env by fastforce
qed simp

subsection \<open>A queue\<close>

text \<open>Items in order and the flag of a shutdown; delayed items never come due.\<close>

definition list_workqueue :: "(QueueItem list \<times> bool) workqueue" where
  "list_workqueue =
     \<lparr>wq_Get = (\<lambda>(xs, b). case xs of x # xs \<Rightarrow> Some (Some x, (xs, b))
                | [] \<Rightarrow> if b then Some (None, ([], b)) else None),
      wq_Done = (\<lambda>q i. q), wq_AddRateLimited = (\<lambda>q i. q), wq_Forget = (\<lambda>q i. q),
      wq_NumRequeues = (\<lambda>q i. 0), wq_Add = (\<lambda>(xs, b) i. if b then (xs, b) else (xs @ [i], b)),
      wq_ShutDown = (\<lambda>(xs, b). (xs, True))\<rparr>"

lemma list_workqueue_drains: "drain_law list_workqueue snd (\<lambda>q. length (fst q))"
  by (auto simp: drain_law_def drains_def list_workqueue_def split: list.splits)

definition sample_item :: QueueItem where
  "sample_item = \<lparr>Key = ''g/v1/rs/R|demo/r1'', ItemObject = Some 4\<rparr>"

text \<open>Schedules: which step is taken, and the state after it.\<close>

datatype wp_action = ASpawn | ASpawned | AStopped | AGet nat | AProcess nat | AWait | AJoined

fun wp_exec ::
  "kube_api \<Rightarrow> (oheap \<Rightarrow> objref option \<Rightarrow> Operation \<Rightarrow> Target \<Rightarrow> string \<Rightarrow> InformerEvent list) \<Rightarrow>
     (informer \<Rightarrow> string \<Rightarrow> goerror + anyobj option) \<Rightarrow> 'q workqueue \<Rightarrow>
     wp_action \<Rightarrow> 'q wp_state \<Rightarrow> 'q wp_state option" where
  "wp_exec api handle store wq ASpawn s =
     (case at_start s of
        InLoop i \<Rightarrow> if i < wp_workers (wpool s)
          then Some (s\<lparr>gos := gos s @ [AtGet], wpool := (wpool s)\<lparr>wp_wg := Suc (wp_wg (wpool s))\<rparr>,
                       at_start := InLoop (i + 1)\<rparr>) else None
      | _ \<Rightarrow> None)"
| "wp_exec api handle store wq ASpawned s =
     (case at_start s of
        InLoop i \<Rightarrow> if i < wp_workers (wpool s) then None else Some (s\<lparr>at_start := AtStop\<rparr>)
      | _ \<Rightarrow> None)"
| "wp_exec api handle store wq AStopped s =
     (if at_start s = AtStop \<and> stop_closed s then Some (s\<lparr>at_start := StartReturned\<rparr>) else None)"
| "wp_exec api handle store wq (AGet k) s =
     (if k < length (gos s) \<and> gos s ! k = AtGet then
        (case wq_Get wq (wp_queue (wpool s)) of
           None \<Rightarrow> None
         | Some (Some item, q) \<Rightarrow>
             Some (s\<lparr>gos := (gos s)[k := HasItem item], wpool := (wpool s)\<lparr>wp_queue := q\<rparr>\<rparr>)
         | Some (None, q) \<Rightarrow>
             Some (s\<lparr>gos := (gos s)[k := Returned],
                     wpool := (wpool s)\<lparr>wp_queue := q, wp_wg := wp_wg (wpool s) - 1\<rparr>\<rparr>))
      else None)"
| "wp_exec api handle store wq (AProcess k) s =
     (if k < length (gos s) then
        (case gos s ! k of
           HasItem item \<Rightarrow>
             (case process_item api handle store wq (wheap s) (wp_informers (wpool s))
                     (wp_queue (wpool s)) (wp_metrics (wpool s)) item of
                Ok (q, m, evs) \<Rightarrow>
                  Some (s\<lparr>gos := (gos s)[k := AtGet],
                          wpool := (wpool s)\<lparr>wp_queue := q, wp_metrics := m\<rparr>,
                          published := published s @ evs\<rparr>)
              | _ \<Rightarrow> None)
         | _ \<Rightarrow> None)
      else None)"
| "wp_exec api handle store wq AWait s =
     (if at_wait s = NotCalled
      then Some (s\<lparr>wpool := (wpool s)\<lparr>wp_queue := wq_ShutDown wq (wp_queue (wpool s))\<rparr>,
                   at_wait := AtWait\<rparr>) else None)"
| "wp_exec api handle store wq AJoined s =
     (if at_wait s = AtWait \<and> wp_wg (wpool s) = 0 then Some (s\<lparr>at_wait := WaitReturned\<rparr>) else None)"

fun wp_exec_all ::
  "kube_api \<Rightarrow> (oheap \<Rightarrow> objref option \<Rightarrow> Operation \<Rightarrow> Target \<Rightarrow> string \<Rightarrow> InformerEvent list) \<Rightarrow>
     (informer \<Rightarrow> string \<Rightarrow> goerror + anyobj option) \<Rightarrow> 'q workqueue \<Rightarrow>
     wp_action list \<Rightarrow> 'q wp_state \<Rightarrow> 'q wp_state option" where
  "wp_exec_all api handle store wq [] s = Some s"
| "wp_exec_all api handle store wq (a # as) s =
     (if crashed s then None
      else case wp_exec api handle store wq a s of
             None \<Rightarrow> None | Some t \<Rightarrow> wp_exec_all api handle store wq as t)"

lemma wp_exec_sound:
  assumes "wp_exec api handle store wq a s = Some t" and "\<not> crashed s"
  shows "wp_step api handle store wq s t"
proof (cases a)
  case (AGet k)
  then show ?thesis using assms
    by (auto split: if_splits option.splits prod.splits intro: wp_get wp_shut [simplified])
next
  case (AProcess k)
  then show ?thesis using assms
    by (auto split: if_splits worker_pc.splits outcome.splits prod.splits intro: wp_process)
qed (use assms in \<open>auto split: start_pc.splits if_splits
      intro: wp_spawn wp_spawned wp_stop wp_Wait wp_joined\<close>)

lemma wp_exec_all_run:
  assumes "wp_exec_all api handle store wq as s = Some t"
  shows "wp_run api handle store wq (length as) s t"
proof -
  have "wp_run api handle store wq n r s \<Longrightarrow> wp_run api handle store wq (n + length as) r t" for n r
    using assms
  proof (induction "as" arbitrary: n s)
    case (Cons a "as")
    then obtain u where "wp_exec api handle store wq a s = Some u" "\<not> crashed s"
      "wp_exec_all api handle store wq as u = Some t"
      by (auto split: if_splits option.splits)
    with Cons.IH [OF run_pool [OF Cons.prems(1) wp_exec_sound]] show ?case by simp
  qed simp
  from this [OF run_here] show ?thesis by simp
qed

definition sample_pool :: "(QueueItem list \<times> bool) wp_state" where
  "sample_pool = wp_init ([sample_item], False) 1 None (\<lambda>_. \<lparr>Object = []\<rparr>)"

definition sample_exec ::
  "wp_action list \<Rightarrow> (QueueItem list \<times> bool) wp_state \<Rightarrow> (QueueItem list \<times> bool) wp_state option" where
  "sample_exec = wp_exec_all sample_api (ingester_Handle sample_api) (\<lambda>_ _. Inr None) list_workqueue"

lemmas sample_pool_simps = sample_exec_def sample_pool_def wp_init_def NewWorkerPool_def
  list_workqueue_def sample_item_def process_item_def reconcile_def splitKey_def strings_SplitN2_def
  go_index_def ingester_Handle_def settle_item_def IncResourcesDispatched_def sample_defs

subsection \<open>Properties\<close>

text \<open>
  C9: Shutting the pool down terminates. Once the queue has been shut down, however the workers, \<^verbatim>\<open>Start\<close>
  and \<^verbatim>\<open>Wait\<close> interleave and whatever the rest of the program adds meanwhile, the pool makes only a
  bounded number of further steps; it never gets stuck before all workers and \<^verbatim>\<open>Wait\<close> have returned and
  \<^verbatim>\<open>Start\<close> has returned or waits for a stop channel that is still open, unless the handling of an item
  panics; and every such run can be completed. When the stop channel is closed, as it is before
  \<^verbatim>\<open>main\<close> shuts the queue down, completed means that \<^verbatim>\<open>Start\<close> has returned, too.
\<close>

theorem pool_shutdown_terminates:
  assumes "drain_law wq shut pending"
    and "wp_run api handle store wq k (wp_init q n m h) s" and "shut (wp_queue (wpool s))"
    and "wp_run api handle store wq j s t"
  shows "j \<le> wp_work pending s \<and>
    (crashed t \<or> finished t \<or> (\<exists>u. wp_step api handle store wq t u)) \<and>
    (\<exists>i u. wp_run api handle store wq i t u \<and> (crashed u \<or> finished u) \<and>
       (stop_closed s \<longrightarrow> crashed u \<or>
          set (gos u) \<subseteq> {Returned} \<and> at_wait u = WaitReturned \<and> at_start u = StartReturned))"
proof -
  have "wp_inv s" by (rule wp_run_inv [OF assms(2) wp_inv_init])
  from wp_run_drains [OF assms(1,4) this assms(3)]
  have t: "wp_inv t" "shut (wp_queue (wpool t))" "j \<le> wp_work pending s" by auto
  obtain i u where u: "wp_run api handle store wq i t u" "crashed u \<or> finished u"
    using wp_completes [OF assms(1) t(1,2)] by blast
  have "stop_closed s \<longrightarrow> stop_closed u"
    using wp_run_stop [OF assms(4)] wp_run_stop [OF u(1)] by blast
  then have "\<exists>i u. wp_run api handle store wq i t u \<and> (crashed u \<or> finished u) \<and>
      (stop_closed s \<longrightarrow> crashed u \<or>
         set (gos u) \<subseteq> {Returned} \<and> at_wait u = WaitReturned \<and> at_start u = StartReturned)"
    using u by (intro exI conjI) (auto simp: finished_def)
  then show ?thesis using wp_can_step [OF assms(1) t(1,2)] t(3) by blast
qed

lemma sample_pool_wait:
  "\<exists>s. sample_exec [ASpawn, AWait] (sample_pool\<lparr>stop_closed := True\<rparr>) = Some s \<and> stop_closed s \<and>
     snd (wp_queue (wpool s))"
  by (simp add: sample_pool_simps)

theorem pool_shutdown_terminates_witness:
  "\<exists>s n t. sample_exec [ASpawn, AWait] (sample_pool\<lparr>stop_closed := True\<rparr>) = Some s \<and>
     wp_run sample_api (ingester_Handle sample_api) (\<lambda>_ _. Inr None) list_workqueue n s t \<and>
     (crashed t \<or> set (gos t) \<subseteq> {Returned} \<and> at_wait t = WaitReturned \<and> at_start t = StartReturned)"
proof -
  let ?run = "wp_run sample_api (ingester_Handle sample_api) (\<lambda>_ _. Inr None) list_workqueue"
  obtain s where s: "sample_exec [ASpawn, AWait] (sample_pool\<lparr>stop_closed := True\<rparr>) = Some s" "stop_closed s"
    "snd (wp_queue (wpool s))"
    using sample_pool_wait by blast
  have "?run 0 sample_pool (sample_pool\<lparr>stop_closed := True\<rparr>)" by (rule run_env [OF run_here env_stop])
  from wp_run_append [OF wp_exec_all_run [OF s(1) [unfolded sample_exec_def]] this]
  have "?run (Suc (Suc 0)) sample_pool s" by simp
  from pool_shutdown_terminates [OF list_workqueue_drains this [unfolded sample_pool_def] s(3) run_here]
  show ?thesis using s(1,2) by blast
qed

lemma Wait_joins:
  assumes "wp_run api handle store wq k (wp_init q n m h) s"
    and "\<forall>i. at_start s \<noteq> InLoop i" and "at_wait s \<noteq> WaitReturned"
    and "wp_run api handle store wq j s t" and "at_wait t = WaitReturned"
    and "wp_run api handle store wq l t u"
  shows "set (gos t) \<subseteq> {Returned} \<and> published u = published t"
proof -
  have "wp_inv s" by (rule wp_run_inv [OF assms(1) wp_inv_init])
  moreover have "joined s" using assms(2,3) by (simp add: joined_def)
  ultimately have "wp_inv t" "joined t" using joined_run [OF assms(4)] by auto
  then show ?thesis using joined_run [OF assms(6)] assms(5) by (auto simp: joined_def)
qed

text \<open>A run in which \<^verbatim>\<open>Wait\<close> comes before the loop of \<^verbatim>\<open>Start\<close>.\<close>

lemma Wait_first:
  "\<exists>s t n. wp_run sample_api (ingester_Handle sample_api) (\<lambda>_ _. Inr None) list_workqueue n
       (wp_init ([sample_item], False) 1 None (\<lambda>_. \<lparr>Object = []\<rparr>)) s \<and>
     at_wait s = WaitReturned \<and> published s = [] \<and>
     wp_run sample_api (ingester_Handle sample_api) (\<lambda>_ _. Inr None) list_workqueue n s t \<and>
     length (published t) = 1"
proof -
  have "\<exists>s t. sample_exec [AWait, AJoined, ASpawn] sample_pool = Some s \<and>
      sample_exec [AGet 0, AProcess 0, AGet 0] s = Some t \<and>
      at_wait s = WaitReturned \<and> published s = [] \<and> length (published t) = 1"
    by (simp add: sample_pool_simps)
  then obtain s t where st: "sample_exec [AWait, AJoined, ASpawn] sample_pool = Some s"
    "sample_exec [AGet 0, AProcess 0, AGet 0] s = Some t"
    "at_wait s = WaitReturned" "published s = []" "length (published t) = 1" by blast
  from wp_exec_all_run [OF st(1) [unfolded sample_exec_def sample_pool_def]]
    wp_exec_all_run [OF st(2) [unfolded sample_exec_def]]
  show ?thesis using st(3-5) by auto
qed

text \<open>
  C21: \<^verbatim>\<open>Wait\<close> joins all workers if \<^verbatim>\<open>Start\<close> has spawned them before: when the loop of \<^verbatim>\<open>Start\<close> is over
  and \<^verbatim>\<open>Wait\<close> returns later, every worker has returned, and nothing is published from then on. The
  order matters: the program starts the pool in a goroutine of its own and does not wait for it, and
  when \<^verbatim>\<open>Wait\<close> comes first it finds the wait group at zero and returns, while the workers spawned
  afterwards still take items off the queue and publish events.
\<close>

theorem Wait_joins_workers:
  assumes "wp_run api handle store wq k (wp_init q n m h) s"
    and "\<forall>i. at_start s \<noteq> InLoop i" and "at_wait s \<noteq> WaitReturned"
    and "wp_run api handle store wq j s t" and "at_wait t = WaitReturned"
    and "wp_run api handle store wq l t u"
  shows "set (gos t) \<subseteq> {Returned} \<and> published u = published t \<and>
    (\<exists>s t n. wp_run sample_api (ingester_Handle sample_api) (\<lambda>_ _. Inr None) list_workqueue n
         (wp_init ([sample_item], False) 1 None (\<lambda>_. \<lparr>Object = []\<rparr>)) s \<and>
       at_wait s = WaitReturned \<and> published s = [] \<and>
       wp_run sample_api (ingester_Handle sample_api) (\<lambda>_ _. Inr None) list_workqueue n s t \<and>
       length (published t) = 1)"
  using Wait_joins [OF assms] Wait_first by simp

lemma sample_joins:
  "\<exists>s t. sample_exec [ASpawn, ASpawned, AWait] sample_pool = Some s \<and>
     sample_exec [AGet 0, AProcess 0, AGet 0, AJoined] s = Some t \<and>
     at_start s = AtStop \<and> at_wait s = AtWait \<and> at_wait t = WaitReturned \<and> length (published t) = 1"
  by (simp add: sample_pool_simps)

theorem Wait_joins_workers_witness:
  "\<exists>s t. sample_exec [ASpawn, ASpawned, AWait] sample_pool = Some s \<and>
     sample_exec [AGet 0, AProcess 0, AGet 0, AJoined] s = Some t \<and>
     length (published t) = 1 \<and> set (gos t) \<subseteq> {Returned}"
proof -
  obtain s t where st: "sample_exec [ASpawn, ASpawned, AWait] sample_pool = Some s"
    "sample_exec [AGet 0, AProcess 0, AGet 0, AJoined] s = Some t" "at_start s = AtStop"
    "at_wait s = AtWait" "at_wait t = WaitReturned" "length (published t) = 1"
    using sample_joins by blast
  have "set (gos t) \<subseteq> {Returned}"
    using Wait_joins_workers [OF wp_exec_all_run [OF st(1) [unfolded sample_exec_def sample_pool_def]]
        _ _ wp_exec_all_run [OF st(2) [unfolded sample_exec_def]] st(5) run_here] st(3,4) by simp
  then show ?thesis using st by blast
qed

end
