(* ===== verification/Pgcheck.thy ===== *)
theory Pgcheck
  imports GoPrelude
begin

text \<open>
  \<^verbatim>\<open>internal/storage/pgcheck/pgcheck.go\<close>: waiting for PostgreSQL and comparing the table's columns with
  the expected ones. The connection, the queries and the retry loop belong to other packages: their
  answers are arguments. The orders in which the two maps are visited are arguments too.
\<close>

subsection \<open>Errors\<close>

text \<open>An error that wraps another (\<^verbatim>\<open>%w\<close>) keeps it reachable for \<^verbatim>\<open>errors.Is\<close>.\<close>

datatype pgerror =
    ErrTableNotFound
  | SchemaMismatchError "string list" "string list" "string list"
  | WrapError string pgerror
  | OtherError string

fun is_table_not_found :: "pgerror \<Rightarrow> bool" where
  "is_table_not_found ErrTableNotFound = True"
| "is_table_not_found (WrapError m e) = is_table_not_found e"
| "is_table_not_found (SchemaMismatchError ms es ts) = False"
| "is_table_not_found (OtherError m) = False"

subsection \<open>strings.EqualFold with an ASCII second argument\<close>

text \<open>
  Two runes are equal under simple folding. For an ASCII rune the candidates are the letter in the
  other case and, for \<open>s\<close> and \<open>k\<close>, the long s (U+017F) and the Kelvin sign (U+212A).
\<close>

definition ascii_lower :: "char \<Rightarrow> char" where
  "ascii_lower c = (if 65 \<le> (of_char c :: nat) \<and> (of_char c :: nat) \<le> 90 then char_of (of_char c + 32 :: nat) else c)"

fun EqualFold :: "string \<Rightarrow> string \<Rightarrow> bool" where
  "EqualFold s [] = (s = [])"
| "EqualFold s (c # t) =
     (case s of
        [] \<Rightarrow> False
      | a # s' \<Rightarrow>
          if ascii_lower a = ascii_lower c then EqualFold s' t
          else if ascii_lower c = CHR ''s'' \<and> take 2 s = [CHR 0xC5, CHR 0xBF] then EqualFold (drop 2 s) t
          else if ascii_lower c = CHR ''k'' \<and> take 3 s = [CHR 0xE2, CHR 0x84, CHR 0xAA]
            then EqualFold (drop 3 s) t
          else False)"

subsection \<open>The schema\<close>

definition expectedColumns :: "(string, string) gomap" where
  "expectedColumns =
     [(''created_at'', ''timestamp with time zone''),
      (''updated_at'', ''timestamp with time zone''),
      (''deleted_at'', ''timestamp with time zone''),
      (''id'', ''bigint''), (''cluster_name'', ''text''), (''uid'', ''text''),
      (''global_uid'', ''text''), (''namespace'', ''text''), (''resource_group'', ''text''),
      (''resource_version'', ''text''), (''resource_kind'', ''text''),
      (''resource_plural'', ''text''), (''resource_name'', ''text''),
      (''composition_id'', ''uuid''), (''raw'', ''jsonb''), (''status_raw'', ''jsonb'')]"

definition pg_tableName :: string where
  "pg_tableName = ''krateo_resources''"

text \<open>Reading the rows: each is a pair or a scan error.\<close>

fun scan_rows ::
  "(goerror + (string \<times> string)) list \<Rightarrow> (string, string) gomap \<Rightarrow> goerror + (string, string) gomap" where
  "scan_rows [] columns = Inr columns"
| "scan_rows (Inl err # rows) columns = Inl err"
| "scan_rows (Inr (col, dtype) # rows) columns = scan_rows rows (AList.update col dtype columns)"

fun expected_loop ::
  "(string, string) gomap \<Rightarrow> (string, string) gomap \<Rightarrow> string list \<Rightarrow> string list \<Rightarrow>
     string list \<times> string list" where
  "expected_loop columns [] missing mistyped = (missing, mistyped)"
| "expected_loop columns ((col, wantType) # rest) missing mistyped =
     (case map_of columns col of
        None \<Rightarrow> expected_loop columns rest (missing @ [col]) mistyped
      | Some gotType \<Rightarrow>
          expected_loop columns rest missing
            (if \<not> EqualFold gotType wantType
             then mistyped @ [col @ '' (want '' @ wantType @ '', got '' @ gotType @ '')'']
             else mistyped))"

fun extra_loop :: "(string, string) gomap \<Rightarrow> string list \<Rightarrow> string list" where
  "extra_loop [] extra = extra"
| "extra_loop ((col, t) # rest) extra =
     extra_loop rest (if map_of expectedColumns col = None then extra @ [col] else extra)"

definition validateSchema ::
  "((string, string) gomap \<Rightarrow> (string, string) gomap) \<Rightarrow>
     (string \<Rightarrow> goerror + ((goerror + (string \<times> string)) list \<times> goerror option)) \<Rightarrow> string \<Rightarrow>
     pgerror option" where
  "validateSchema ord query table =
     (case query table of
        Inl err \<Rightarrow> Some (WrapError ''querying columns'' (OtherError err))
      | Inr (rows, rowsErr) \<Rightarrow>
          (case scan_rows rows [] of
             Inl err \<Rightarrow> Some (WrapError ''scanning column row'' (OtherError err))
           | Inr columns \<Rightarrow>
               (case rowsErr of
                  Some err \<Rightarrow> Some (WrapError ''iterating column rows'' (OtherError err))
                | None \<Rightarrow>
                    (let (missing, mistyped) = expected_loop columns (ord expectedColumns) [] [];
                         extra = extra_loop (ord columns) []
                     in if length missing + length extra + length mistyped > 0
                        then Some (SchemaMismatchError missing extra mistyped)
                        else None))))"

subsection \<open>Waiting\<close>

definition tableExists :: "goerror + bool \<Rightarrow> pgerror + bool" where
  "tableExists answer =
     (case answer of
        Inl err \<Rightarrow> Inl (WrapError ''checking table existence'' (OtherError err))
      | Inr b \<Rightarrow> Inr b)"

text \<open>One attempt of the retried function.\<close>

definition table_attempt :: "goerror + bool \<Rightarrow> pgerror option" where
  "table_attempt answer =
     (case tableExists answer of
        Inl e \<Rightarrow> Some e
      | Inr b \<Rightarrow> if \<not> b then Some ErrTableNotFound else None)"

text \<open>
  \<open>connect\<close> is the answer of the upstream library, \<open>answers\<close> what the database replies at each attempt,
  and \<open>until\<close> the retry loop, from the outcomes of the attempts to its own. The result says whether
  the pool was closed.
\<close>

definition WaitForPostgresWithOptions ::
  "pgerror + 'pool \<Rightarrow> ((nat \<Rightarrow> pgerror option) \<Rightarrow> pgerror option) \<Rightarrow> (nat \<Rightarrow> goerror + bool) \<Rightarrow>
     ((string, string) gomap \<Rightarrow> (string, string) gomap) \<Rightarrow>
     (string \<Rightarrow> goerror + ((goerror + (string \<times> string)) list \<times> goerror option)) \<Rightarrow>
     (pgerror + 'pool) \<times> bool" where
  "WaitForPostgresWithOptions connect until answers ord query =
     (case connect of
        Inl err \<Rightarrow> (Inl err, False)
      | Inr pool \<Rightarrow>
          (case until (\<lambda>k. table_attempt (answers k)) of
             Some err \<Rightarrow> (Inl (if is_table_not_found err then ErrTableNotFound else err), True)
           | None \<Rightarrow>
               (case validateSchema ord query pg_tableName of
                  Some schemaErr \<Rightarrow> (Inl schemaErr, True)
                | None \<Rightarrow> (Inr pool, False))))"

text \<open>What the retry loop documents: it succeeds only when an attempt did.\<close>

definition until_law :: "((nat \<Rightarrow> pgerror option) \<Rightarrow> pgerror option) \<Rightarrow> bool" where
  "until_law until \<longleftrightarrow> (\<forall>f. until f = None \<longrightarrow> (\<exists>k. f k = None))"

text \<open>The type message of a column.\<close>

definition type_message :: "string \<Rightarrow> string \<Rightarrow> string \<Rightarrow> string" where
  "type_message col wantType gotType = col @ '' (want '' @ wantType @ '', got '' @ gotType @ '')''"

subsection \<open>Lemmas\<close>

lemma scan_rows_ok: "scan_rows (map Inr rows) m = Inr (foldl (\<lambda>m (c, t). AList.update c t m) m rows)"
  by (induction rows arbitrary: m) auto

lemma map_of_scanned:
  "map_of (foldl (\<lambda>m (c, t). AList.update c t m) m rows) = map_of m ++ map_of (rev rows)"
  by (induction rows arbitrary: m) (auto simp: update_conv' map_add_def fun_eq_iff split: option.splits)

lemma wf_scanned: "wf_map m \<Longrightarrow> wf_map (foldl (\<lambda>m (c, t). AList.update c t m) m rows)"
  by (induction rows arbitrary: m) (auto simp: wf_map_update)

lemma expected_loop_eq:
  "expected_loop columns es missing mistyped =
     (missing @ map fst (filter (\<lambda>(c, w). map_of columns c = None) es),
      mistyped @ concat (map (\<lambda>(c, w). case map_of columns c of
        None \<Rightarrow> [] | Some g \<Rightarrow> if EqualFold g w then [] else [type_message c w g]) es))"
  by (induction es arbitrary: missing mistyped) (auto simp: type_message_def split: option.splits)

lemma extra_loop_eq:
  "extra_loop es extra = extra @ map fst (filter (\<lambda>(c, t). map_of expectedColumns c = None) es)"
  by (induction es arbitrary: extra) auto

lemma visits_set: "visits_map m (ord m) \<Longrightarrow> set (ord m) = set m"
  by (metis visits_map_def mset_eq_setD)

lemma wf_expectedColumns: "wf_map expectedColumns"
  by (simp add: expectedColumns_def wf_map_def)

lemma EqualFold_refl: "EqualFold s s"
  by (induction s) auto

text \<open>The result on rows that were all read, as two sets and a list of type messages.\<close>

lemma validateSchema_eq:
  assumes "\<forall>m. visits_map m (ord m)" and "query table = Inr (map Inr rows, None)"
  shows "\<exists>missing extra mistyped.
    set missing = dom (map_of expectedColumns) - dom (map_of (rev rows)) \<and>
    set extra = dom (map_of (rev rows)) - dom (map_of expectedColumns) \<and>
    set mistyped = {type_message c w g |c w g. map_of expectedColumns c = Some w \<and>
      map_of (rev rows) c = Some g \<and> \<not> EqualFold g w} \<and>
    validateSchema ord query table =
      (if missing = [] \<and> extra = [] \<and> mistyped = [] then None
       else Some (SchemaMismatchError missing extra mistyped))"
proof -
  define cols where "cols = foldl (\<lambda>m (c, t). AList.update c t m) [] rows"
  have m: "map_of cols = map_of (rev rows)" by (simp add: cols_def map_of_scanned)
  have so: "set (ord expectedColumns) = set expectedColumns" "set (ord cols) = set cols"
    using visits_set [of _ ord] assms(1) by blast+
  have ex: "(c, w) \<in> set expectedColumns \<longleftrightarrow> map_of expectedColumns c = Some w" for c w
    by (rule set_map_of [OF wf_expectedColumns])
  have co: "(c, t) \<in> set cols \<longleftrightarrow> map_of (rev rows) c = Some t" for c t
    using set_map_of [of cols c t] wf_scanned [of "[]" rows] by (simp add: cols_def m [unfolded cols_def])
  let ?missing = "map fst (filter (\<lambda>(c, w). map_of cols c = None) (ord expectedColumns))"
  let ?extra = "map fst (filter (\<lambda>(c, t). map_of expectedColumns c = None) (ord cols))"
  let ?mistyped = "concat (map (\<lambda>(c, w). case map_of cols c of
    None \<Rightarrow> [] | Some g \<Rightarrow> if EqualFold g w then [] else [type_message c w g]) (ord expectedColumns))"
  have "validateSchema ord query table =
      (if ?missing = [] \<and> ?extra = [] \<and> ?mistyped = [] then None
       else Some (SchemaMismatchError ?missing ?extra ?mistyped))"
    unfolding validateSchema_def assms(2) sum.case prod.case scan_rows_ok option.case
      cols_def [symmetric] expected_loop_eq extra_loop_eq Let_def append_Nil
      add_gr_0 length_greater_0_conv
    by argo
  moreover have "set ?missing = dom (map_of expectedColumns) - dom (map_of (rev rows))"
    by (force simp: so ex m)
  moreover have "set ?extra = dom (map_of (rev rows)) - dom (map_of expectedColumns)"
    by (force simp: so co)
  moreover have "set ?mistyped = {type_message c w g |c w g. map_of expectedColumns c = Some w \<and>
      map_of (rev rows) c = Some g \<and> \<not> EqualFold g w}"
    by (force simp: so ex m split: option.splits if_splits)
  ultimately show ?thesis by blast
qed

lemma validateSchema_self:
  "validateSchema (\<lambda>m. m) (\<lambda>_. Inr (map Inr expectedColumns, None)) table = None"
proof -
  have r: "map_of (rev expectedColumns) = map_of expectedColumns"
    using wf_expectedColumns
    by (intro map_of_inject_set [THEN iffD2]) (simp_all add: wf_map_def rev_map [symmetric])
  have "\<forall>m. visits_map m m" by (simp add: visits_map_def)
  from validateSchema_eq [OF this, of "\<lambda>_. Inr (map Inr expectedColumns, None)" table expectedColumns,
      OF refl, unfolded r]
  obtain missing extra mistyped where
    m: "set missing = dom (map_of expectedColumns) - dom (map_of expectedColumns)"
      "set extra = dom (map_of expectedColumns) - dom (map_of expectedColumns)"
    "set mistyped = {type_message c w g |c w g. map_of expectedColumns c = Some w \<and>
      map_of expectedColumns c = Some g \<and> \<not> EqualFold g w}"
    and v: "validateSchema (\<lambda>m. m) (\<lambda>_. Inr (map Inr expectedColumns, None)) table =
      (if missing = [] \<and> extra = [] \<and> mistyped = [] then None
       else Some (SchemaMismatchError missing extra mistyped))"
    by (elim exE conjE) (rule that)
  from m(3) EqualFold_refl have "set mistyped = {}" by auto
  with m v show ?thesis by simp
qed

subsection \<open>Properties\<close>

text \<open>
  C29: The schema check is exact. When the columns could be read, it reports as missing exactly the
  expected columns the table does not have, as extra exactly the columns that are not expected, and
  one message for exactly each column whose type differs from the expected one up to case; it
  succeeds when all three are empty. This holds for every order in which the maps are visited, and
  for a column reported twice the last type counts.
\<close>

theorem validateSchema_exact:
  assumes "\<forall>m. visits_map m (ord m)" and "query table = Inr (map Inr rows, None)"
  shows "\<exists>missing extra mistyped.
    set missing = dom (map_of expectedColumns) - dom (map_of (rev rows)) \<and>
    set extra = dom (map_of (rev rows)) - dom (map_of expectedColumns) \<and>
    set mistyped = {type_message c w g |c w g. map_of expectedColumns c = Some w \<and>
      map_of (rev rows) c = Some g \<and> \<not> EqualFold g w} \<and>
    validateSchema ord query table =
      (if missing = [] \<and> extra = [] \<and> mistyped = [] then None
       else Some (SchemaMismatchError missing extra mistyped))"
  using assms by (rule validateSchema_eq)

theorem validateSchema_exact_witness:
  "\<exists>missing extra mistyped.
     validateSchema (\<lambda>m. m) (\<lambda>_. Inr (map Inr [(''id'', ''BIGINT''), (''uid'', ''uuid''), (''x'', ''text'')], None))
       ''krateo_resources'' = Some (SchemaMismatchError missing extra mistyped) \<and>
     set extra = {''x''} \<and> ''raw'' \<in> set missing \<and> ''id'' \<notin> set missing"
proof -
  let ?rows = "[(''id'', ''BIGINT''), (''uid'', ''uuid''), (''x'', ''text'')]"
  have v: "\<forall>m. visits_map m ((\<lambda>m. m) m)" by (simp add: visits_map_def)
  have s: "dom (map_of (rev ?rows)) - dom (map_of expectedColumns) = {''x''}"
    "''raw'' \<in> dom (map_of expectedColumns) - dom (map_of (rev ?rows))"
    "''id'' \<notin> dom (map_of expectedColumns) - dom (map_of (rev ?rows))"
    by (simp_all add: dom_map_of_conv_image_fst expectedColumns_def insert_Diff_if)
  have "(\<lambda>_. Inr (map Inr ?rows, None)) ''krateo_resources'' = Inr (map Inr ?rows, None)" by simp
  from validateSchema_exact [OF v, of "\<lambda>_. Inr (map Inr ?rows, None)" "''krateo_resources''", OF this] obtain missing extra mistyped where
    m: "set missing = dom (map_of expectedColumns) - dom (map_of (rev ?rows))"
      "set extra = dom (map_of (rev ?rows)) - dom (map_of expectedColumns)"
    and r: "validateSchema (\<lambda>m. m) (\<lambda>_. Inr (map Inr ?rows, None)) ''krateo_resources'' =
      (if missing = [] \<and> extra = [] \<and> mistyped = [] then None
       else Some (SchemaMismatchError missing extra mistyped))"
    by (elim exE conjE) (rule that)
  from m(2) have x: "set extra = {''x''}" by (simp only: s(1))
  have y: "''raw'' \<in> set missing" "''id'' \<notin> set missing" unfolding m(1) by (rule s(2), rule s(3))
  from x have "extra \<noteq> []" by (cases extra) simp_all
  then have "\<not> (missing = [] \<and> extra = [] \<and> mistyped = [])" by simp
  with r have "validateSchema (\<lambda>m. m) (\<lambda>_. Inr (map Inr ?rows, None)) ''krateo_resources'' =
      Some (SchemaMismatchError missing extra mistyped)" by (simp only: if_False)
  with x y show ?thesis by (intro exI conjI)
qed

text \<open>
  C30: Starting up is safe: a pool is returned only when the connection succeeded, some attempt found
  the table, and the schema check passed; in every other case the error is returned and a pool that
  was opened has been closed, and an error that wraps the missing table is reported as just that.
\<close>

theorem WaitForPostgres_safe:
  assumes "until_law until"
  shows "(fst (WaitForPostgresWithOptions connect until answers ord query) = Inr pl \<longrightarrow>
      connect = Inr pl \<and> (\<exists>k. answers k = Inr True) \<and> validateSchema ord query pg_tableName = None) \<and>
    (snd (WaitForPostgresWithOptions connect until answers ord query) \<longleftrightarrow>
      \<not> isl connect \<and> isl (fst (WaitForPostgresWithOptions connect until answers ord query))) \<and>
    (until (\<lambda>k. table_attempt (answers k)) = Some err \<and> is_table_not_found err \<and> \<not> isl connect \<longrightarrow>
      fst (WaitForPostgresWithOptions connect until answers ord query) = Inl ErrTableNotFound)"
proof -
  have att: "table_attempt a = None \<longleftrightarrow> a = Inr True" for a
    by (auto simp: table_attempt_def tableExists_def split: sum.splits)
  have "until (\<lambda>k. table_attempt (answers k)) = None \<longrightarrow> (\<exists>k. answers k = Inr True)"
    using assms unfolding until_law_def by (metis att)
  then show ?thesis
    by (auto simp: WaitForPostgresWithOptions_def split: sum.splits option.splits)
qed

theorem WaitForPostgres_safe_witness:
  "fst (WaitForPostgresWithOptions (Inr (3::nat)) (\<lambda>f. if f 0 = None then None else f 1) (\<lambda>k. Inr (k = 1))
     (\<lambda>m. m) (\<lambda>_. Inr (map Inr expectedColumns, None))) = Inr 3 \<and>
   validateSchema (\<lambda>m. m) (\<lambda>_. Inr (map Inr expectedColumns, None)) pg_tableName = None"
proof -
  let ?q = "\<lambda>_. Inr (map Inr expectedColumns, None)"
  let ?u = "\<lambda>f :: nat \<Rightarrow> pgerror option. if f 0 = None then None else f 1"
  have "until_law ?u" by (auto simp: until_law_def)
  moreover have v: "validateSchema (\<lambda>m. m) ?q pg_tableName = None" by (rule validateSchema_self)
  moreover have "fst (WaitForPostgresWithOptions (Inr (3::nat)) ?u (\<lambda>k. Inr (k = 1)) (\<lambda>m. m) ?q) = Inr 3"
    by (simp add: WaitForPostgresWithOptions_def v table_attempt_def tableExists_def)
  ultimately show ?thesis using WaitForPostgres_safe by blast
qed

end
