(* ===== verification/Config.thy ===== *)
theory Config
  imports GoPrelude
begin

text \<open>
  \<^verbatim>\<open>internal/config/\<close>: the configuration, from the command line and the environment. The third-party
  package \<^verbatim>\<open>env\<close> is the argument \<open>env_pkg\<close>, and the connection URL is made by the third-party package
  \<^verbatim>\<open>pgutil\<close>, the argument \<open>connectionURL\<close>. \<^verbatim>\<open>flag\<close> and \<^verbatim>\<open>net/url\<close> are Go's own: the parsing of the command line
  and of a query is modelled; only the syntax of numbers and durations is left to \<open>strconv\<close>.
\<close>

subsection \<open>net/url\<close>

definition strings_Cut :: "string \<Rightarrow> char \<Rightarrow> string \<times> string" where
  "strings_Cut s c = (takeWhile (\<lambda>x. x \<noteq> c) s, drop 1 (dropWhile (\<lambda>x. x \<noteq> c) s))"

fun unhex :: "char \<Rightarrow> nat option" where
  "unhex c =
     (let n = of_char c in
      if 48 \<le> n \<and> n \<le> 57 then Some (n - 48)
      else if 97 \<le> n \<and> n \<le> 102 then Some (n - 87)
      else if 65 \<le> n \<and> n \<le> 70 then Some (n - 55)
      else None)"

text \<open>
  \<^verbatim>\<open>QueryUnescape\<close>: percent escapes, plus for space; a malformed escape is an error (whose text here
  quotes the escape as it is).
\<close>

fun QueryUnescape :: "string \<Rightarrow> goerror + string" where
  "QueryUnescape [] = Inr []"
| "QueryUnescape (c # s) =
     (if c = CHR ''%'' then
        (case s of
           a # b # rest \<Rightarrow>
             (case (unhex a, unhex b) of
                (Some x, Some y) \<Rightarrow>
                  (case QueryUnescape rest of
                     Inl e \<Rightarrow> Inl e
                   | Inr t \<Rightarrow> Inr (char_of (16 * x + y) # t))
              | _ \<Rightarrow> Inl (''invalid URL escape '' @ [CHR 0x22, c, a, b, CHR 0x22]))
         | _ \<Rightarrow> Inl (''invalid URL escape '' @ CHR 0x22 # c # s @ [CHR 0x22]))
      else
        (case QueryUnescape s of
           Inl e \<Rightarrow> Inl e
         | Inr t \<Rightarrow> Inr ((if c = CHR ''+'' then CHR '' '' else c) # t)))"

text \<open>
  \<^verbatim>\<open>ParseQuery\<close>: the settings between ampersands; the first unescaping error is kept, a semicolon
  overwrites it, and the loop goes on. Values of one key are collected in order.
\<close>

definition append_value :: "string \<Rightarrow> string \<Rightarrow> (string, string list) gomap \<Rightarrow> (string, string list) gomap" where
  "append_value k v m =
     AList.update k ((case map_of m k of None \<Rightarrow> [] | Some vs \<Rightarrow> vs) @ [v]) m"

fun parse_query_loop ::
  "string list \<Rightarrow> (string, string list) gomap \<Rightarrow> goerror option \<Rightarrow>
     (string, string list) gomap \<times> goerror option" where
  "parse_query_loop [] m err = (m, err)"
| "parse_query_loop (piece # pieces) m err =
     (if CHR '';'' \<in> set piece then parse_query_loop pieces m (Some ''invalid semicolon separator in query'')
      else if piece = [] then parse_query_loop pieces m err
      else
        (case strings_Cut piece CHR ''='' of (key, value) \<Rightarrow>
           (case QueryUnescape key of
              Inl e \<Rightarrow> parse_query_loop pieces m (if err = None then Some e else err)
            | Inr k \<Rightarrow>
                (case QueryUnescape value of
                   Inl e \<Rightarrow> parse_query_loop pieces m (if err = None then Some e else err)
                 | Inr v \<Rightarrow> parse_query_loop pieces (append_value k v m) err))))"

definition url_ParseQuery :: "string \<Rightarrow> (string, string list) gomap \<times> goerror option" where
  "url_ParseQuery query = parse_query_loop (strings_Split query CHR ''&'') [] None"

subsection \<open>support.go\<close>

fun first_values_loop :: "(string \<times> string list) list \<Rightarrow> (string, string) gomap \<Rightarrow> (string, string) gomap" where
  "first_values_loop [] params = params"
| "first_values_loop ((k, v) # rest) params =
     first_values_loop rest (if length v > 0 then AList.update k (hd v) params else params)"

definition parseDBParams ::
  "((string, string list) gomap \<Rightarrow> (string, string list) gomap) \<Rightarrow> string \<Rightarrow>
     goerror + (string, string) gomap" where
  "parseDBParams ord raw =
     (if raw = [] then Inr []
      else
        (case url_ParseQuery raw of
           (values, Some err) \<Rightarrow> Inl err
         | (values, None) \<Rightarrow> Inr (first_values_loop (ord values) [])))"

subsection \<open>Package flag\<close>

text \<open>How Go reads an integer and a duration (in nanoseconds); \<open>None\<close> for text it refuses.\<close>

record strconv =
  parseInt :: "string \<Rightarrow> int option"
  parseDuration :: "string \<Rightarrow> int option"

fun parseBool :: "string \<Rightarrow> bool option" where
  "parseBool v =
     (if v \<in> set [''1'', ''t'', ''T'', ''TRUE'', ''true'', ''True''] then Some True
      else if v \<in> set [''0'', ''f'', ''F'', ''FALSE'', ''false'', ''False''] then Some False
      else None)"

datatype flag_kind = IntFlag | BoolFlag | StringFlag | DurationFlag

fun flag_accepts :: "strconv \<Rightarrow> flag_kind \<Rightarrow> string \<Rightarrow> bool" where
  "flag_accepts sc IntFlag v = (parseInt sc v \<noteq> None)"
| "flag_accepts sc BoolFlag v = (parseBool v \<noteq> None)"
| "flag_accepts sc StringFlag v = True"
| "flag_accepts sc DurationFlag v = (parseDuration sc v \<noteq> None)"

text \<open>
  \<^verbatim>\<open>flag.Parse\<close>: the values given for the declared flags, the last one of a flag counting. A boolean
  flag takes a value only after an equals sign; the others also take the next argument. The first
  argument that is not a flag, or two dashes, ends the flags. An error ends the process.
\<close>

fun flag_parse_loop ::
  "strconv \<Rightarrow> (string, flag_kind) gomap \<Rightarrow> string list \<Rightarrow> (string, string) gomap \<Rightarrow>
     goerror + (string, string) gomap" where
  "flag_parse_loop sc decls [] vals = Inr vals"
| "flag_parse_loop sc decls (arg # args) vals =
     (if length arg < 2 \<or> hd arg \<noteq> CHR ''-'' \<or> arg = ''--'' then Inr vals
      else
        (let flg = (if arg ! 1 = CHR ''-'' then drop 2 arg else drop 1 arg) in
         if flg = [] \<or> hd flg = CHR ''-'' \<or> hd flg = CHR ''='' then Inl (''bad flag syntax: '' @ arg)
         else
           (let name = fst (strings_Cut flg CHR ''='');
                has_value = (CHR ''='' \<in> set flg);
                value = snd (strings_Cut flg CHR ''='')
            in case map_of decls name of
                 None \<Rightarrow>
                   if name = ''help'' \<or> name = ''h'' then Inl ''flag: help requested''
                   else Inl (''flag provided but not defined: -'' @ name)
               | Some k \<Rightarrow>
                   if has_value \<or> k = BoolFlag then
                     (let v = (if has_value then value else ''true'') in
                      if flag_accepts sc k v then flag_parse_loop sc decls args (AList.update name v vals)
                      else Inl (''invalid value for flag -'' @ name))
                   else
                     (case args of
                        [] \<Rightarrow> Inl (''flag needs an argument: -'' @ name)
                      | v # rest \<Rightarrow>
                          if flag_accepts sc k v then flag_parse_loop sc decls rest (AList.update name v vals)
                          else Inl (''invalid value for flag -'' @ name)))))"

text \<open>What a flag's variable holds after parsing: the given value, or else the default.\<close>

definition flag_String :: "(string, string) gomap \<Rightarrow> string \<Rightarrow> string \<Rightarrow> string" where
  "flag_String vals name dflt = (case map_of vals name of None \<Rightarrow> dflt | Some v \<Rightarrow> v)"

definition flag_value ::
  "(string \<Rightarrow> 'a option) \<Rightarrow> (string, string) gomap \<Rightarrow> string \<Rightarrow> 'a \<Rightarrow> 'a" where
  "flag_value conv vals name dflt =
     (case map_of vals name of
        None \<Rightarrow> dflt
      | Some v \<Rightarrow> (case conv v of None \<Rightarrow> dflt | Some x \<Rightarrow> x))"

subsection \<open>config.go\<close>

text \<open>The getters of package \<^verbatim>\<open>env\<close>: the name of a variable and the default.\<close>

record env_pkg =
  env_ServicePort :: "string \<Rightarrow> int \<Rightarrow> int"
  env_Bool :: "string \<Rightarrow> bool \<Rightarrow> bool"
  env_String :: "string \<Rightarrow> string \<Rightarrow> string"
  env_Int :: "string \<Rightarrow> int \<Rightarrow> int"
  env_Duration :: "string \<Rightarrow> int \<Rightarrow> int"

text \<open>The variables of the flags.\<close>

record raw_config =
  raw_port :: int
  raw_debug :: bool
  raw_dbUser :: string
  raw_dbPass :: string
  raw_dbName :: string
  raw_dbHost :: string
  raw_dbPort :: int
  raw_dbParams :: string
  raw_dbReadyTimeout :: int
  raw_otelEnabled :: bool
  raw_otelExportInterval :: int
  raw_namespaces :: string

record config =
  cfg_Port :: int
  cfg_Debug :: bool
  cfg_DbURL :: string
  cfg_DbReadyTimeout :: int
  cfg_Namespaces :: "string list"
  cfg_OTelEnabled :: bool
  cfg_OTelExportIntv :: int

text \<open>The loop that trims the namespaces in place.\<close>

fun trim_all :: "string list \<Rightarrow> string list" where
  "trim_all [] = []"
| "trim_all (ns # nss) = strings_TrimSpace ns # trim_all nss"

definition declared_flags :: "(string, flag_kind) gomap" where
  "declared_flags =
     [(''port'', IntFlag), (''debug'', BoolFlag), (''db-user'', StringFlag), (''db-pass'', StringFlag),
      (''db-name'', StringFlag), (''db-host'', StringFlag), (''db-port'', IntFlag),
      (''db-params'', StringFlag), (''db-ready-timeout'', DurationFlag), (''otel-enabled'', BoolFlag),
      (''otel-export-interval'', DurationFlag), (''namespaces'', StringFlag)]"

text \<open>The flags with their environment variables and defaults; \<^verbatim>\<open>4 * time.Minute\<close> is \<open>240 * 10 ^ 9\<close>.\<close>

definition flag_variables :: "strconv \<Rightarrow> env_pkg \<Rightarrow> (string, string) gomap \<Rightarrow> raw_config" where
  "flag_variables sc env vals =
     \<lparr>raw_port = flag_value (parseInt sc) vals ''port'' (env_ServicePort env ''PORT'' 8082),
      raw_debug = flag_value parseBool vals ''debug'' (env_Bool env ''DEBUG'' False),
      raw_dbUser = flag_String vals ''db-user'' (env_String env ''DB_USER'' []),
      raw_dbPass = flag_String vals ''db-pass'' (env_String env ''DB_PASS'' []),
      raw_dbName = flag_String vals ''db-name'' (env_String env ''DB_NAME'' []),
      raw_dbHost = flag_String vals ''db-host'' (env_String env ''DB_HOST'' ''localhost''),
      raw_dbPort = flag_value (parseInt sc) vals ''db-port'' (env_Int env ''DB_PORT'' 5432),
      raw_dbParams = flag_String vals ''db-params'' (env_String env ''DB_PARAMS'' []),
      raw_dbReadyTimeout = flag_value (parseDuration sc) vals ''db-ready-timeout''
        (env_Duration env ''DB_READY_TIMEOUT'' (240 * 10 ^ 9)),
      raw_otelEnabled = flag_value parseBool vals ''otel-enabled'' (env_Bool env ''OTEL_ENABLED'' False),
      raw_otelExportInterval = flag_value (parseDuration sc) vals ''otel-export-interval''
        (env_Duration env ''OTEL_EXPORT_INTERVAL'' (50 * 10 ^ 9)),
      raw_namespaces = flag_String vals ''namespaces'' (env_String env ''NAMESPACES'' [])\<rparr>"

text \<open>After parsing; \<open>Inl\<close> is the exit of the process with code 1 after logging the error.\<close>

definition configure ::
  "((string, string list) gomap \<Rightarrow> (string, string list) gomap) \<Rightarrow>
     (string \<Rightarrow> string \<Rightarrow> string \<Rightarrow> int \<Rightarrow> string \<Rightarrow> (string, string) gomap \<Rightarrow> goerror + string) \<Rightarrow>
     raw_config \<Rightarrow> goerror + config" where
  "configure ord connectionURL raw =
     (let allNS = trim_all (strings_Split (raw_namespaces raw) CHR '','') in
      case parseDBParams ord (raw_dbParams raw) of
        Inl err \<Rightarrow> Inl err
      | Inr params \<Rightarrow>
          (case connectionURL (raw_dbUser raw) (raw_dbPass raw) (raw_dbHost raw) (raw_dbPort raw)
                  (raw_dbName raw) params of
             Inl err \<Rightarrow> Inl err
           | Inr url \<Rightarrow>
               Inr \<lparr>cfg_Port = raw_port raw, cfg_Debug = raw_debug raw, cfg_DbURL = url,
                    cfg_DbReadyTimeout = raw_dbReadyTimeout raw,
                    cfg_Namespaces = (if length allNS > 0 then allNS else []),
                    cfg_OTelEnabled = raw_otelEnabled raw,
                    cfg_OTelExportIntv = raw_otelExportInterval raw\<rparr>))"

definition Setup ::
  "strconv \<Rightarrow> env_pkg \<Rightarrow> ((string, string list) gomap \<Rightarrow> (string, string list) gomap) \<Rightarrow>
     (string \<Rightarrow> string \<Rightarrow> string \<Rightarrow> int \<Rightarrow> string \<Rightarrow> (string, string) gomap \<Rightarrow> goerror + string) \<Rightarrow>
     string list \<Rightarrow> goerror + config" where
  "Setup sc env ord connectionURL args =
     (case flag_parse_loop sc declared_flags args [] of
        Inl err \<Rightarrow> Inl err
      | Inr vals \<Rightarrow> configure ord connectionURL (flag_variables sc env vals))"

subsection \<open>Plain settings\<close>

text \<open>Keys and values that need no escaping, and the query made of them.\<close>

definition plain :: "string \<Rightarrow> bool" where
  "plain s \<longleftrightarrow> set s \<inter> {CHR ''&'', CHR '';'', CHR ''%'', CHR ''+''} = {}"

definition plain_setting :: "string \<times> string \<Rightarrow> bool" where
  "plain_setting kv \<longleftrightarrow> plain (fst kv) \<and> plain (snd kv) \<and> CHR ''='' \<notin> set (fst kv)"

definition setting_text :: "string \<times> string \<Rightarrow> string" where
  "setting_text kv = fst kv @ CHR ''='' # snd kv"

definition query_text :: "(string \<times> string) list \<Rightarrow> string" where
  "query_text kvs = strings_Join (map setting_text kvs) ''&''"

subsection \<open>Lemmas\<close>

lemma QueryUnescape_plain: "plain s \<Longrightarrow> QueryUnescape s = Inr s"
  by (induction s) (auto simp: plain_def)

lemma strings_Cut_at: "c \<notin> set k \<Longrightarrow> strings_Cut (k @ c # v) c = (k, v)"
  by (simp add: strings_Cut_def takeWhile_append dropWhile_append)

lemma parse_plain:
  assumes "\<forall>kv \<in> set kvs. plain_setting kv"
  shows "parse_query_loop (map setting_text kvs) m None =
    (foldl (\<lambda>m (k, v). append_value k v m) m kvs, None)"
  using assms
proof (induction kvs arbitrary: m)
  case Nil
  then show ?case by simp
next
  case (Cons kv kvs)
  obtain k v where kv: "kv = (k, v)" by (cases kv)
  with Cons.prems have p: "plain k" "plain v" "CHR ''='' \<notin> set k" by (simp_all add: plain_setting_def)
  then have "CHR '';'' \<notin> set (setting_text kv)" by (auto simp: kv setting_text_def plain_def)
  then show ?case
    using Cons p by (simp add: kv setting_text_def strings_Cut_at QueryUnescape_plain)
qed

lemma append_value_lookup:
  "map_of (append_value k v m) x =
     (if x = k then Some ((case map_of m k of None \<Rightarrow> [] | Some vs \<Rightarrow> vs) @ [v]) else map_of m x)"
  by (simp add: append_value_def update_conv')

lemma append_values_first:
  assumes "\<forall>x vs. map_of m x = Some vs \<longrightarrow> vs \<noteq> []"
  shows "(\<forall>x vs. map_of (foldl (\<lambda>m (k, v). append_value k v m) m kvs) x = Some vs \<longrightarrow> vs \<noteq> []) \<and>
    map_option hd (map_of (foldl (\<lambda>m (k, v). append_value k v m) m kvs) x) =
      (case map_of m x of Some vs \<Rightarrow> Some (hd vs) | None \<Rightarrow> map_of kvs x)"
  using assms
proof (induction kvs arbitrary: m)
  case Nil
  then show ?case by (auto split: option.splits)
next
  case (Cons kv kvs)
  obtain k v where kv: "kv = (k, v)" by (cases kv)
  have "\<forall>x vs. map_of (append_value k v m) x = Some vs \<longrightarrow> vs \<noteq> []"
    using Cons.prems by (auto simp: append_value_lookup)
  from Cons.IH [OF this] show ?case
    using Cons.prems by (auto simp: kv append_value_lookup split: option.splits)
qed

lemma append_values_wf: "wf_map m \<Longrightarrow> wf_map (foldl (\<lambda>m (k, v). append_value k v m) m kvs)"
  by (induction kvs arbitrary: m) (auto simp: append_value_def wf_map_update)

lemma first_values_lookup:
  assumes "distinct (map fst es)"
  shows "map_of (first_values_loop es ps) x =
    (case map_of es x of Some (v # vs) \<Rightarrow> Some v | _ \<Rightarrow> map_of ps x)"
  using assms
proof (induction es arbitrary: ps)
  case Nil
  then show ?case by simp
next
  case (Cons e es)
  obtain k vs where e: "e = (k, vs)" by (cases e)
  with Cons.prems have "map_of es k = None" by (simp add: map_of_eq_None_iff)
  with Cons show ?case
    by (cases vs) (auto simp: e update_conv' split: option.splits list.splits)
qed

lemma visited_lookup:
  assumes "wf_map m" and "visits_map m es"
  shows "distinct (map fst es) \<and> map_of es = map_of m"
proof -
  have "mset (map fst es) = mset (map fst m)" using assms(2) by (simp add: visits_map_def)
  then have d: "distinct (map fst es)" using assms(1) by (metis wf_map_def mset_eq_imp_distinct_iff)
  moreover have "set es = set m" using assms(2) by (metis visits_map_def mset_eq_setD)
  ultimately show ?thesis using assms(1) by (simp add: map_of_inject_set wf_map_def)
qed

lemma trim_all_map: "trim_all nss = map strings_TrimSpace nss"
  by (induction nss) auto

lemma configure_namespaces:
  "configure ord connectionURL raw = Inr cfg \<Longrightarrow>
     cfg_Namespaces cfg = map strings_TrimSpace (strings_Split (raw_namespaces raw) CHR '','') \<and>
     cfg_Namespaces cfg \<noteq> []"
  by (auto simp: configure_def Let_def trim_all_map split: sum.splits)

definition flag_arg :: "string \<times> string \<Rightarrow> string" where
  "flag_arg kv = ''-'' @ fst kv @ ''='' @ snd kv"

lemma declared_flag_name:
  assumes "map_of declared_flags n = Some k"
  shows "n \<noteq> []" "CHR ''='' \<notin> set n" "hd n \<noteq> CHR ''-''"
proof -
  have "(n, k) \<in> set declared_flags" using assms by (rule map_of_SomeD)
  then show "n \<noteq> []" "CHR ''='' \<notin> set n" "hd n \<noteq> CHR ''-''" by (auto simp: declared_flags_def)
qed

lemma strings_Cut_append: "c \<notin> set k \<Longrightarrow> strings_Cut (k @ c # v) c = (k, v)"
  by (simp add: strings_Cut_def takeWhile_append dropWhile_append)

lemma flag_parse_arg:
  assumes "map_of declared_flags n = Some k" and "flag_accepts sc k v"
  shows "flag_parse_loop sc declared_flags (flag_arg (n, v) # args) vals =
    flag_parse_loop sc declared_flags args (AList.update n v vals)"
proof -
  note n = declared_flag_name [OF assms(1)]
  then obtain c cs where c: "n = c # cs" "c \<noteq> CHR ''-''" "c \<noteq> CHR ''=''" by (cases n) auto
  have arg: "flag_arg (n, v) = CHR ''-'' # c # cs @ CHR ''='' # v" by (simp add: flag_arg_def c(1))
  have cut: "strings_Cut (c # cs @ CHR ''='' # v) CHR ''='' = (n, v)"
    using strings_Cut_append [OF n(2), of v] by (simp add: c(1))
  show ?thesis
    unfolding arg using c(2,3) cut assms by (simp add: Let_def)
qed

lemma flags_roundtrip:
  assumes "\<forall>(n, v) \<in> set kvs. \<exists>k. map_of declared_flags n = Some k \<and> flag_accepts sc k v"
  shows "flag_parse_loop sc declared_flags (map flag_arg kvs) vals =
    Inr (foldl (\<lambda>m (n, v). AList.update n v m) vals kvs)"
  using assms
proof (induction kvs arbitrary: vals)
  case (Cons kv kvs)
  obtain n v where kv: "kv = (n, v)" by (cases kv)
  then obtain k where "map_of declared_flags n = Some k" "flag_accepts sc k v" using Cons.prems by auto
  then show ?case using Cons by (simp add: kv flag_parse_arg del: flag_parse_loop.simps(2))
qed simp

lemma map_of_updates:
  "map_of (foldl (\<lambda>m (n, v). AList.update n v m) vals kvs) =
     map_of vals ++ map_of (rev kvs)"
  by (induction kvs arbitrary: vals) (auto simp: update_conv' map_add_def fun_eq_iff split: option.splits)

subsection \<open>Properties\<close>

text \<open>
  Reading back the database parameters: a query made of plain settings gives exactly these
  parameters, and for a key that is given several times the first value, whatever the order in which
  the parsed map is visited.
\<close>

theorem parseDBParams_roundtrip:
  assumes "\<forall>m. visits_map m (ord m)" and "\<forall>kv \<in> set kvs. plain_setting kv"
  shows "\<exists>params. parseDBParams ord (query_text kvs) = Inr params \<and> map_of params = map_of kvs"
proof (cases "kvs = []")
  case True
  then show ?thesis by (simp add: parseDBParams_def query_text_def)
next
  case False
  let ?m = "foldl (\<lambda>m (k, v). append_value k v m) [] kvs"
  have "\<forall>p \<in> set (map setting_text kvs). CHR ''&'' \<notin> set p"
    using assms(2) by (auto simp: plain_setting_def plain_def setting_text_def)
  then have sp: "strings_Split (query_text kvs) CHR ''&'' = map setting_text kvs"
    unfolding query_text_def using False by (intro strings_Split_Join) auto
  have ne: "query_text kvs \<noteq> []"
    using sp False by (cases kvs) (auto simp: setting_text_def)
  have "parseDBParams ord (query_text kvs) = Inr (first_values_loop (ord ?m) [])"
    using ne parse_plain [OF assms(2)] by (simp add: parseDBParams_def url_ParseQuery_def sp)
  moreover have "map_of (first_values_loop (ord ?m) []) x = map_of kvs x" for x
    using first_values_lookup [of "ord ?m" "[]" x] append_values_first [of "[]" kvs x]
      visited_lookup [of ?m "ord ?m"] append_values_wf [of "[]" kvs] assms(1)
    by (auto split: option.splits list.splits)
  ultimately show ?thesis by blast
qed

theorem parseDBParams_roundtrip_witness:
  "\<exists>params. parseDBParams (\<lambda>m. m) ''sslmode=disable&connect_timeout=5&sslmode=require'' = Inr params \<and>
     map_of params ''sslmode'' = Some ''disable''"
proof -
  let ?kvs = "[(''sslmode'', ''disable''), (''connect_timeout'', ''5''), (''sslmode'', ''require'')]"
  have "\<forall>m. visits_map m m" by (simp add: visits_map_def)
  moreover have "\<forall>kv \<in> set ?kvs. plain_setting kv" by (simp add: plain_setting_def plain_def)
  ultimately have "\<exists>params. parseDBParams (\<lambda>m. m) (query_text ?kvs) = Inr params \<and> map_of params = map_of ?kvs"
    by (rule parseDBParams_roundtrip)
  then show ?thesis by (auto simp: query_text_def setting_text_def)
qed

text \<open>
  The command line overrides the environment, and the environment the defaults: with arguments that
  assign declared flags acceptable values, parsing succeeds, and a textual setting is the last value
  given for its flag, or else what the environment or the default says.
\<close>

theorem flags_override:
  assumes "\<forall>(n, v) \<in> set kvs. \<exists>k. map_of declared_flags n = Some k \<and> flag_accepts sc k v"
  shows "\<exists>vals. flag_parse_loop sc declared_flags (map flag_arg kvs) [] = Inr vals \<and>
    (\<forall>n d. flag_String vals n d = (case map_of (rev kvs) n of Some v \<Rightarrow> v | None \<Rightarrow> d))"
  using flags_roundtrip [OF assms, of "[]"]
  by (auto simp: flag_String_def map_of_updates split: option.split)

theorem flags_override_witness:
  "\<exists>vals. flag_parse_loop \<lparr>parseInt = (\<lambda>_. None), parseDuration = (\<lambda>_. None)\<rparr> declared_flags
       [''-db-host=a'', ''-debug=true'', ''-db-host=b''] [] = Inr vals \<and>
     flag_String vals ''db-host'' ''localhost'' = ''b''"
proof -
  let ?sc = "\<lparr>parseInt = (\<lambda>_. None), parseDuration = (\<lambda>_. None)\<rparr>"
  let ?kvs = "[(''db-host'', ''a''), (''debug'', ''true''), (''db-host'', ''b'')]"
  have args: "map flag_arg ?kvs = [''-db-host=a'', ''-debug=true'', ''-db-host=b'']" by (simp add: flag_arg_def)
  have "\<forall>(n, v) \<in> set ?kvs. \<exists>k. map_of declared_flags n = Some k \<and> flag_accepts ?sc k v"
    by (simp add: declared_flags_def) (rule exI [of _ True], simp)
  from flags_override [OF this] obtain vals where
    "flag_parse_loop ?sc declared_flags (map flag_arg ?kvs) [] = Inr vals"
    "\<forall>n d. flag_String vals n d = (case map_of (rev ?kvs) n of Some v \<Rightarrow> v | None \<Rightarrow> d)" by blast
  then show ?thesis unfolding args by (intro exI [of _ vals]) simp
qed

end
