(* ===== verification/MainProgram.thy ===== *)
theory MainProgram
  imports Pipeline Storage Manager WorkPoolRun Pgcheck Config
begin

text \<open>
  \<^verbatim>\<open>main.go\<close>: start-up in order, with an exit at the first failure, the two reporting loops, and the
  calls of an orderly shutdown. The answers of the libraries are the fields of \<open>main_env\<close>. The log
  keeps only the message of the error that ends the program.
\<close>

subsection \<open>The process\<close>

datatype resource = MetricsProvider | DatabasePool | ProbeServer

datatype goroutine =
    ProbeServe           \<comment> \<open>the server of the health probes\<close>
  | BatchRun
  | QueueRun nat nat    \<comment> \<open>the workers and the dispatcher of the job queue\<close>
  | StorageRun
  | PoolStart int
  | ManagerRun
  | RouterRun gvr
  | GaugeLoop
  | StatusLoop

datatype deferred_call =
    StopSignals | ShutdownMetrics | CancelPgCtx | ClosePool | TerminateQueue | CancelShutdownCtx

text \<open>What has been opened and started so far, and the deferred calls, the last one first.\<close>

record process =
  opened :: "resource list"
  going :: "goroutine list"
  deferred :: "deferred_call list"

definition open_resource :: "resource \<Rightarrow> process \<Rightarrow> process" where
  "open_resource r p = p\<lparr>opened := opened p @ [r]\<rparr>"

definition go :: "goroutine \<Rightarrow> process \<Rightarrow> process" where
  "go g p = p\<lparr>going := going p @ [g]\<rparr>"

definition defer_call :: "deferred_call \<Rightarrow> process \<Rightarrow> process" where
  "defer_call d p = p\<lparr>deferred := d # deferred p\<rparr>"

text \<open>\<^verbatim>\<open>os.Exit(1)\<close> ends the process at once, without deferred calls.\<close>

datatype exit_report =
    ConfigError goerror   \<comment> \<open>the configuration ends the process itself\<close>
  | LogLine string
  | SchemaReport "string list" "string list" "string list"

datatype 'a startup = Cont 'a process | Exits exit_report process | Crashes string process

fun bind_startup :: "'a startup \<Rightarrow> ('a \<Rightarrow> process \<Rightarrow> 'b startup) \<Rightarrow> 'b startup" where
  "bind_startup (Cont x p) f = f x p"
| "bind_startup (Exits r p) f = Exits r p"
| "bind_startup (Crashes e p) f = Crashes e p"

subsection \<open>Answers of the libraries\<close>

record ('rc, 'q) main_env =
  me_strconv :: strconv
  me_env :: env_pkg
  me_args :: "string list"
  me_paramOrd :: "(string, string list) gomap \<Rightarrow> (string, string list) gomap"
  me_connectionURL ::
    "string \<Rightarrow> string \<Rightarrow> string \<Rightarrow> int \<Rightarrow> string \<Rightarrow> (string, string) gomap \<Rightarrow> goerror + string"
  me_exporter :: "goerror option"
  me_merge :: "goerror option"
  me_create :: "string \<Rightarrow> goerror option"
  me_register :: "goerror option"
  me_connect :: "string \<Rightarrow> pgerror + handle"
  me_until :: "(nat \<Rightarrow> pgerror option) \<Rightarrow> pgerror option"
  me_tableAnswers :: "nat \<Rightarrow> goerror + bool"
  me_columnOrd :: "(string, string) gomap \<Rightarrow> (string, string) gomap"
  me_columns :: "string \<Rightarrow> goerror + ((goerror + (string \<times> string)) list \<times> goerror option)"
  me_InClusterConfig :: "goerror + 'rc"
  me_newDynamic :: "'rc \<Rightarrow> errtree + handle"
  me_newDiscovery :: "'rc \<Rightarrow> errtree + handle"
  me_newMemCache :: "handle \<Rightarrow> handle"
  me_newMapper :: "handle \<Rightarrow> handle"
  me_clusterName :: "'rc \<Rightarrow> string"
  me_newQueue :: "rate_limiter \<Rightarrow> 'q"
  me_eventbus :: handle
  me_mkInf :: "gvr \<Rightarrow> string \<Rightarrow> informer"

subsection \<open>Start-up\<close>

text \<open>
  The switch on the error of \<^verbatim>\<open>WaitForPostgres\<close>: \<^verbatim>\<open>errors.Is\<close> and \<^verbatim>\<open>errors.As\<close> along the wrapped errors. A
  \<^verbatim>\<open>SchemaMismatchError\<close> unwraps to \<^verbatim>\<open>ErrSchemaMismatch\<close>.
\<close>

fun schema_detail :: "pgerror \<Rightarrow> (string list \<times> string list \<times> string list) option" where
  "schema_detail (SchemaMismatchError missing extra mistyped) = Some (missing, extra, mistyped)"
| "schema_detail (WrapError m e) = schema_detail e"
| "schema_detail ErrTableNotFound = None"
| "schema_detail (OtherError m) = None"

definition postgres_report :: "pgerror \<Rightarrow> exit_report" where
  "postgres_report err =
     (if is_table_not_found err then LogLine ''krateo_resources table missing''
      else case schema_detail err of
             Some (missing, extra, mistyped) \<Rightarrow> SchemaReport missing extra mistyped
           | None \<Rightarrow> LogLine ''cannot connect to PostgreSQL'')"

definition WaitForPostgres ::
  "('rc, 'q) main_env \<Rightarrow> string \<Rightarrow> (pgerror + handle) \<times> bool" where
  "WaitForPostgres E dbURL =
     WaitForPostgresWithOptions (me_connect E dbURL) (me_until E) (me_tableAnswers E) (me_columnOrd E)
       (me_columns E)"

text \<open>Configuration and metrics; \<^verbatim>\<open>Setup\<close> of the configuration exits by itself.\<close>

definition main_metrics :: "('rc, 'q) main_env \<Rightarrow> (config \<times> Metrics option) startup" where
  "main_metrics E =
     (let p = \<lparr>opened = [], going = [], deferred = []\<rparr> in
      case Setup (me_strconv E) (me_env E) (me_paramOrd E) (me_connectionURL E) (me_args E) of
        Inl err \<Rightarrow> Exits (ConfigError err) p
      | Inr cfg \<Rightarrow>
          (let p = defer_call StopSignals p in
           case telemetry_Setup (me_exporter E) (me_merge E) (me_create E) (me_register E)
                  \<lparr>Enabled = cfg_OTelEnabled cfg, ServiceName = ''resources-ingester'',
                   ExportInterval = cfg_OTelExportIntv cfg\<rparr> of
             Inl err \<Rightarrow> Exits (LogLine ''cannot initialize OpenTelemetry metrics'') p
           | Inr metrics \<Rightarrow>
               Cont (cfg, metrics)
                 (defer_call ShutdownMetrics
                    (if metrics = None then p else open_resource MetricsProvider p))))"

text \<open>The database, then the health probes.\<close>

definition main_database :: "('rc, 'q) main_env \<Rightarrow> config \<Rightarrow> process \<Rightarrow> handle startup" where
  "main_database E cfg p =
     (let p = defer_call CancelPgCtx p in
      case fst (WaitForPostgres E (cfg_DbURL cfg)) of
        Inl err \<Rightarrow> Exits (postgres_report err) p
      | Inr pg \<Rightarrow>
          Cont pg (go ProbeServe (open_resource ProbeServer (defer_call ClosePool (open_resource DatabasePool p)))))"

definition main_clients :: "('rc, 'q) main_env \<Rightarrow> process \<Rightarrow> ('rc \<times> handle \<times> string) startup" where
  "main_clients E p =
     (case me_InClusterConfig E of
        Inl err \<Rightarrow> Exits (LogLine ''cannot get in-cluster config'') p
      | Inr restConfig \<Rightarrow>
          (case me_newDynamic E restConfig of
             Inl err \<Rightarrow> Exits (LogLine ''cannot create k8s client'') p
           | Inr client \<Rightarrow> Cont (restConfig, client, me_clusterName E restConfig) p))"

text \<open>
  The record channel, the batch worker and the job queue; \<^verbatim>\<open>Run\<close> of the queue blocks (it does not with
  a fresh queue) or panics like its definition says.
\<close>

definition recordChan_handle :: handle where "recordChan_handle = 1"
definition jobQueue_handle :: handle where "jobQueue_handle = 2"

definition main_pipeline ::
  "process \<Rightarrow> (Worker \<times> (InsertRecordJob, InsertRecord chan) cqueue) startup" where
  "main_pipeline p =
     (case NewWorker batch_sql_fs \<lparr>MaxBatch = 50, FlushEvery = 5 * 10 ^ 9\<rparr> of
        Ok batchWorker \<Rightarrow>
          (let p = go BatchRun p in
           case cq_Run (NewQueue 1000 4 (make_chan 100)) of
             Some (Ok jobQueue) \<Rightarrow>
               Cont (batchWorker, jobQueue) (defer_call TerminateQueue (go (QueueRun 1000 4) p))
           | Some (Panic e) \<Rightarrow> Crashes e p
           | Some (Err e) \<Rightarrow> Crashes e p
           | None \<Rightarrow> Crashes ''all goroutines are asleep'' p)
      | Panic e \<Rightarrow> Crashes e p
      | Err e \<Rightarrow> Crashes e p)"

definition main_storage ::
  "('rc, 'q) main_env \<Rightarrow> 'rc \<Rightarrow> handle \<Rightarrow> string \<Rightarrow> process \<Rightarrow> storage startup" where
  "main_storage E restConfig pg cluster p =
     (case storage_NewManager (me_newDynamic E) (me_newDiscovery E) (me_newMemCache E) (me_newMapper E)
             \<lparr>so_RESTConfig = restConfig, so_Eventbus = me_eventbus E, so_Queue = jobQueue_handle,
              so_Pool = pg, so_RecordChan = recordChan_handle, so_ClusterName = cluster\<rparr> of
        Inl err \<Rightarrow> Exits (LogLine ''cannot create manager'') p
      | Inr sto \<Rightarrow> Cont sto (go StorageRun p))"

text \<open>The ingester, the shared queue and the worker pool; \<^verbatim>\<open>5 * time.Minute\<close> is \<open>300 * 10 ^ 9\<close>.\<close>

definition main_workers ::
  "('rc, 'q) main_env \<Rightarrow> Metrics option \<Rightarrow> process \<Rightarrow> (ingester \<times> 'q WorkerPool) startup" where
  "main_workers E metrics p =
     (case NewIngester \<lparr>io_EventBus = me_eventbus E\<rparr> of
        Inl err \<Rightarrow> Exits (LogLine ''cannot create ingester'') p
      | Inr ing \<Rightarrow>
          Cont (ing, NewWorkerPool (me_newQueue E (NewSharedQueue (300 * 10 ^ 9))) 10 metrics)
            (go (PoolStart 10) p))"

text \<open>
  The informer manager and the static routers, which register in the same pool; \<^verbatim>\<open>8 * time.Hour\<close> is
  \<open>28800 * 10 ^ 9\<close>. Then the two reporting loops.
\<close>

definition main_informers ::
  "('rc, 'q) main_env \<Rightarrow> config \<Rightarrow> 'q WorkerPool \<Rightarrow> process \<Rightarrow>
     (manager \<times> 'q WorkerPool \<times> Router list) startup" where
  "main_informers E cfg wgpool p =
     (case NewManager manager_static_fs
             \<lparr>mo_ResyncInterval = 28800 * 10 ^ 9, mo_ThrottlePeriod = 300 * 10 ^ 9,
              mo_Namespaces = cfg_Namespaces cfg, mo_WgPool = wp_informers wgpool\<rparr> of
        Ok infManager \<Rightarrow>
          (let p = go ManagerRun p in
           case bind_outcome (MustLoad router_static_fs ''static'') (\<lambda>statics.
                  NewStaticRouters (me_mkInf E) statics (wp_informers wgpool)) of
             Ok (infs, routers) \<Rightarrow>
               Cont (infManager\<lparr>pool := infs\<rparr>, wgpool\<lparr>wp_informers := infs\<rparr>, routers)
                 (go StatusLoop (go GaugeLoop (foldl (\<lambda>p r. go (RouterRun (Gvr r)) p) p routers)))
           | Panic e \<Rightarrow> Crashes e p
           | Err e \<Rightarrow> Crashes e p)
      | Panic e \<Rightarrow> Crashes e p
      | Err e \<Rightarrow> Crashes e p)"

record ('rc, 'q) program =
  pr_config :: config
  pr_metrics :: "Metrics option"
  pr_pool :: handle
  pr_batch :: Worker
  pr_queue :: "(InsertRecordJob, InsertRecord chan) cqueue"
  pr_storage :: storage
  pr_ingester :: ingester
  pr_wgpool :: "'q WorkerPool"
  pr_manager :: manager
  pr_restConfig :: 'rc

definition main_start :: "('rc, 'q) main_env \<Rightarrow> ('rc, 'q) program startup" where
  "main_start E =
     bind_startup (main_metrics E) (\<lambda>(cfg, metrics) p.
     bind_startup (main_database E cfg p) (\<lambda>pg p.
     bind_startup (main_clients E p) (\<lambda>(restConfig, client, cluster) p.
     bind_startup (main_pipeline p) (\<lambda>(batchWorker, jobQueue) p.
     bind_startup (main_storage E restConfig pg cluster p) (\<lambda>sto p.
     bind_startup (main_workers E metrics p) (\<lambda>(ing, wgpool) p.
     bind_startup (main_informers E cfg wgpool p) (\<lambda>(infManager, wgpool, routers) p.
       Cont \<lparr>pr_config = cfg, pr_metrics = metrics, pr_pool = pg, pr_batch = batchWorker,
             pr_queue = jobQueue, pr_storage = sto, pr_ingester = ing, pr_wgpool = wgpool,
             pr_manager = infManager, pr_restConfig = restConfig\<rparr> p)))))))"

subsection \<open>Reporting\<close>

text \<open>What a reporting loop reads when its ticker fires.\<close>

record snapshot =
  sn_recordChan :: "InsertRecord chan"
  sn_jobQueue :: "(InsertRecordJob, InsertRecord chan) cqueue"
  sn_manager :: manager
  sn_goroutines :: int

datatype loop_event = LoopTick snapshot | LoopDone

definition gauge_tick :: "snapshot \<Rightarrow> Metrics option \<Rightarrow> Metrics option" where
  "gauge_tick sn m =
     (let m = SetRecordChannelDepth m (int (length (ch_buf (sn_recordChan sn))));
          m = SetQueueDepth m (int (GetJobCount (sn_jobQueue sn)));
          m = SetGoRoutines m (sn_goroutines sn)
      in SetActiveInformerKinds m (int (GetInformers (sn_manager sn))))"

fun gauge_loop :: "loop_event list \<Rightarrow> Metrics option \<Rightarrow> Metrics option" where
  "gauge_loop [] m = m"
| "gauge_loop (LoopDone # es) m = m"
| "gauge_loop (LoopTick sn # es) m = gauge_loop es (gauge_tick sn m)"

text \<open>The lines the monitor logs: record channel, queued jobs, informer kinds, goroutines.\<close>

fun status_loop :: "loop_event list \<Rightarrow> (nat \<times> nat \<times> nat \<times> int) list" where
  "status_loop [] = []"
| "status_loop (LoopDone # es) = []"
| "status_loop (LoopTick sn # es) =
     (length (ch_buf (sn_recordChan sn)), GetJobCount (sn_jobQueue sn), GetInformers (sn_manager sn),
      sn_goroutines sn) # status_loop es"

subsection \<open>Shutdown\<close>

text \<open>
  What \<^verbatim>\<open>main\<close> calls once the root context is done; a deadline context for the probe server is made
  and its cancellation deferred before the server is shut down. The deferred calls follow.
\<close>

datatype main_call = ShutDownQueue | WaitPool | ShutdownProbes | Deferred deferred_call

definition main_shutdown :: "process \<Rightarrow> main_call list" where
  "main_shutdown p =
     [ShutDownQueue, WaitPool, ShutdownProbes] @
     map Deferred (deferred (defer_call CancelShutdownCtx p))"

subsection \<open>Lemmas\<close>

lemmas process_simps = open_resource_def go_def defer_call_def

text \<open>The embedded table has one line, for the definitions of custom resources.\<close>

definition crd_gvr :: gvr where
  "crd_gvr = \<lparr>Group = ''apiextensions.k8s.io'', Version = ''v1'', Resource = ''customresourcedefinitions''\<rparr>"

definition crd_row :: "string \<times> string \<times> string \<times> string" where
  "crd_row = (''apiextensions.k8s.io'', ''v1'', ''customresourcedefinitions'', ''CustomResourceDefinition'')"

lemma static_table: "MustLoad router_static_fs ''static'' = Ok (static_line crd_row)"
  by code_simp

lemma static_table_rows: "getRoutersFromStatic (static_line crd_row) = [static_entry crd_row]"
  by code_simp

lemma start_static_routers:
  "bind_outcome (MustLoad router_static_fs ''static'') (\<lambda>statics. NewStaticRouters mkInf statics []) =
     Ok ([(getInformerKey crd_gvr ''CustomResourceDefinition'' [], mkInf crd_gvr [])],
         [\<lparr>informers = [mkInf crd_gvr []], namespaces = [[]], Gvr = crd_gvr,
           kind = ''CustomResourceDefinition''\<rparr>])"
proof -
  have row: "row_gvr crd_row = crd_gvr" "row_kind crd_row = ''CustomResourceDefinition''"
    by (simp_all add: row_gvr_def row_kind_def crd_row_def crd_gvr_def)
  show ?thesis
    using static_router_loop_rows [of mkInf "[crd_row]" "[]" "[]"]
    by (simp add: static_table NewStaticRouters_def static_table_rows row RegisterInformer_def)
qed

definition managed_group_names :: "string list" where
  "managed_group_names =
     [''composition.krateo.io'', ''widgets.templates.krateo.io'', ''core.krateo.io'', ''finops.krateo.io'',
      ''basic.authn.krateo.io'', ''oidc.authn.krateo.io'', ''oauth.authn.krateo.io'',
      ''ldap.authn.krateo.io'', ''ai.krateo.io'']"

lemma load_managed_groups:
  "\<exists>content. manager_mustLoad manager_static_fs ''managed_groups'' = Ok content \<and>
     map fst (parse content) = managed_group_names"
proof -
  have "(case manager_mustLoad manager_static_fs ''managed_groups'' of
      Ok content \<Rightarrow> map fst (parse content) = managed_group_names | _ \<Rightarrow> False)"
    by code_simp
  then show ?thesis by (simp split: outcome.splits)
qed

lemma isManagedGroup_iff: "isManagedGroup groups g \<longleftrightarrow> g \<in> set (map fst groups)"
  by (simp add: isManagedGroup_def map_of_eq_None_iff)

lemma start_pipeline:
  "\<exists>w q. main_pipeline p = Cont (w, q) (defer_call TerminateQueue (go (QueueRun 1000 4) (go BatchRun p))) \<and>
     cq_init 1000 4 (make_chan 100) q \<and> buffer w = [] \<and> maxBatch w = 50 \<and> flushEvery w = 5 * 10 ^ 9 \<and>
     length (columns w) = 15"
proof -
  obtain w where w: "NewWorker batch_sql_fs \<lparr>MaxBatch = 50, FlushEvery = 5 * 10 ^ 9\<rparr> = Ok w"
    "buffer w = []" "maxBatch w = 50" "flushEvery w = 5 * 10 ^ 9" "length (columns w) = 15"
    using NewWorker_columns [of 50 "5 * 10 ^ 9"] by simp
  obtain q :: "(InsertRecordJob, InsertRecord chan) cqueue"
    where q: "cq_Run (NewQueue 1000 4 (make_chan 100)) = Some (Ok q)"
    using cq_init_eq [of 1000 4 "make_chan 100"] unfolding cq_init_def by blast
  show ?thesis unfolding main_pipeline_def w(1) outcome.case q Let_def option.case
    using w(2-) q by (auto simp: cq_init_def)
qed

lemma start_workers_pool:
  "main_workers E m p =
     Cont (\<lparr>ing_recordChan = None, ing_clusterName = [], ing_eventbus = me_eventbus E\<rparr>,
           NewWorkerPool (me_newQueue E (ItemExponentialFailure (300 * 10 ^ 9) (300 * 10 ^ 9))) 10 m)
       (go (PoolStart 10) p)"
  by (simp add: main_workers_def NewIngester_def NewSharedQueue_def)

definition manager_idle :: "manager \<Rightarrow> bool" where
  "manager_idle m \<longleftrightarrow> minformers m = [] \<and> started m = [] \<and> cancelled m = [] \<and> \<not> mgrDone m"

lemma manager_idle_inv: "manager_idle m \<Longrightarrow> manager_inv api m"
  by (simp add: manager_idle_def manager_inv_def live_def)

lemma start_informers:
  "wp_informers wgpool = [] \<Longrightarrow>
   \<exists>infManager. main_informers E cfg wgpool p =
     Cont (infManager,
           wgpool\<lparr>wp_informers := [(getInformerKey crd_gvr ''CustomResourceDefinition'' [],
                                   me_mkInf E crd_gvr [])]\<rparr>,
           [\<lparr>informers = [me_mkInf E crd_gvr []], namespaces = [[]], Gvr = crd_gvr,
             kind = ''CustomResourceDefinition''\<rparr>])
       (go StatusLoop (go GaugeLoop (go (RouterRun crd_gvr) (go ManagerRun p)))) \<and>
     Namespaces infManager = cfg_Namespaces cfg \<and>
     map fst (managedGroups infManager) = managed_group_names \<and> manager_idle infManager"
  using load_managed_groups
  by (auto simp: main_informers_def NewManager_def start_static_routers manager_idle_def)

definition fully_started :: "process \<Rightarrow> bool" where
  "fully_started p \<longleftrightarrow>
     going p = [ProbeServe, BatchRun, QueueRun 1000 4, StorageRun, PoolStart 10, ManagerRun, RouterRun crd_gvr,
       GaugeLoop, StatusLoop] \<and>
     deferred p = [TerminateQueue, ClosePool, CancelPgCtx, ShutdownMetrics, StopSignals]"

text \<open>
  Where the program may exit, by what its last log line says: before the database is ready nothing
  runs and no pool is open; then the probe server runs and the pool is open; and when the storage
  manager cannot be made, the batch worker and the queue run, too.
\<close>

definition exit_state :: "exit_report \<Rightarrow> process \<Rightarrow> bool" where
  "exit_state r p \<longleftrightarrow>
     (if r = LogLine ''cannot create manager'' then
        going p = [ProbeServe, BatchRun, QueueRun 1000 4] \<and>
        deferred p = [TerminateQueue, ClosePool, CancelPgCtx, ShutdownMetrics, StopSignals] \<and>
        {DatabasePool, ProbeServer} \<subseteq> set (opened p)
      else if r \<in> {LogLine ''cannot get in-cluster config'', LogLine ''cannot create k8s client''} then
        going p = [ProbeServe] \<and> deferred p = [ClosePool, CancelPgCtx, ShutdownMetrics, StopSignals] \<and>
        {DatabasePool, ProbeServer} \<subseteq> set (opened p)
      else
        going p = [] \<and> {ClosePool, TerminateQueue} \<inter> set (deferred p) = {} \<and>
        {DatabasePool, ProbeServer} \<inter> set (opened p) = {})"

definition wired :: "('rc, 'q) main_env \<Rightarrow> ('rc, 'q) program \<Rightarrow> bool" where
  "wired E pr \<longleftrightarrow>
     cq_init 1000 4 (make_chan 100) (pr_queue pr) \<and> buffer (pr_batch pr) = [] \<and>
     maxBatch (pr_batch pr) = 50 \<and> length (columns (pr_batch pr)) = 15 \<and>
     Namespaces (pr_manager pr) = cfg_Namespaces (pr_config pr) \<and>
     map fst (managedGroups (pr_manager pr)) = managed_group_names \<and> manager_idle (pr_manager pr) \<and>
     (\<forall>ns. find_informer (wp_informers (pr_wgpool pr)) crd_gvr ''CustomResourceDefinition'' ns =
        Some (me_mkInf E crd_gvr []))"

text \<open>
  What a phase of the start-up yields: it goes on in a state with the given property, or exits in one of
  the states above; it never panics.
\<close>

definition yields :: "('a \<Rightarrow> process \<Rightarrow> bool) \<Rightarrow> 'a startup \<Rightarrow> bool" where
  "yields Q r = (case r of Cont x p \<Rightarrow> Q x p | Exits r p \<Rightarrow> exit_state r p | Crashes e p \<Rightarrow> False)"

lemma yields_simps [simp]:
  "yields Q (Cont x p) = Q x p" "yields Q (Exits r p) = exit_state r p" "\<not> yields Q (Crashes e p)"
  by (simp_all add: yields_def)

lemma yields_bind:
  "yields Q r \<Longrightarrow> (\<And>x p. Q x p \<Longrightarrow> yields R (f x p)) \<Longrightarrow> yields R (bind_startup r f)"
  by (cases r) auto

lemma yields_weaken: "yields Q r \<Longrightarrow> (\<And>x p. Q x p \<Longrightarrow> R x p) \<Longrightarrow> yields R r"
  by (cases r) auto

text \<open>The states between the phases.\<close>

definition before_database :: "process \<Rightarrow> bool" where
  "before_database p \<longleftrightarrow>
     {DatabasePool, ProbeServer} \<inter> set (opened p) = {} \<and> going p = [] \<and> deferred p = [ShutdownMetrics, StopSignals]"

definition after_database :: "goroutine list \<Rightarrow> deferred_call list \<Rightarrow> process \<Rightarrow> bool" where
  "after_database gs ds p \<longleftrightarrow>
     {DatabasePool, ProbeServer} \<subseteq> set (opened p) \<and> going p = gs \<and>
     deferred p = ds @ [ClosePool, CancelPgCtx, ShutdownMetrics, StopSignals]"

lemma yields_metrics: "yields (\<lambda>_ p. before_database p) (main_metrics E)"
  by (simp add: main_metrics_def process_simps exit_state_def before_database_def Let_def split: sum.split)

lemma postgres_report_line:
  "postgres_report err = LogLine l \<Longrightarrow>
     l = ''krateo_resources table missing'' \<or> l = ''cannot connect to PostgreSQL''"
  by (auto simp: postgres_report_def split: if_splits option.splits)

lemma yields_database:
  "before_database p \<Longrightarrow> yields (\<lambda>_. after_database [ProbeServe] []) (main_database E cfg p)"
  by (auto simp: main_database_def process_simps exit_state_def before_database_def after_database_def Let_def
      dest!: postgres_report_line split: sum.split)

lemma yields_clients:
  "after_database [ProbeServe] [] p \<Longrightarrow> yields (\<lambda>_. after_database [ProbeServe] []) (main_clients E p)"
  by (simp add: main_clients_def exit_state_def after_database_def split: sum.split)

lemma yields_pipeline:
  assumes "after_database [ProbeServe] [] p"
  shows "yields (\<lambda>(w, q) p. after_database [ProbeServe, BatchRun, QueueRun 1000 4] [TerminateQueue] p \<and>
      cq_init 1000 4 (make_chan 100) q \<and> buffer w = [] \<and> maxBatch w = 50 \<and> length (columns w) = 15)
    (main_pipeline p)"
proof -
  obtain w q where wq: "main_pipeline p =
      Cont (w, q) (defer_call TerminateQueue (go (QueueRun 1000 4) (go BatchRun p)))"
    "cq_init 1000 4 (make_chan 100) q" "buffer w = []" "maxBatch w = 50" "length (columns w) = 15"
    using start_pipeline [of p] by blast
  then show ?thesis using assms by (simp add: after_database_def process_simps)
qed

lemma yields_storage:
  "after_database [ProbeServe, BatchRun, QueueRun 1000 4] [TerminateQueue] p \<Longrightarrow>
     yields (\<lambda>_. after_database [ProbeServe, BatchRun, QueueRun 1000 4, StorageRun] [TerminateQueue])
       (main_storage E restConfig pg cluster p)"
  by (simp add: main_storage_def exit_state_def after_database_def process_simps split: sum.split)

lemma yields_workers:
  "after_database gs ds p \<Longrightarrow>
     yields (\<lambda>(ing, wgpool) p. after_database (gs @ [PoolStart 10]) ds p \<and> wp_informers wgpool = [])
       (main_workers E metrics p)"
  by (simp add: start_workers_pool NewWorkerPool_def after_database_def process_simps)

lemma yields_informers:
  assumes "after_database gs ds p" and "wp_informers wgpool = []"
  shows "yields (\<lambda>(infManager, wgpool, routers) p.
      after_database (gs @ [ManagerRun, RouterRun crd_gvr, GaugeLoop, StatusLoop]) ds p \<and>
      Namespaces infManager = cfg_Namespaces cfg \<and>
      map fst (managedGroups infManager) = managed_group_names \<and> manager_idle infManager \<and>
      wp_informers wgpool = [(getInformerKey crd_gvr ''CustomResourceDefinition'' [], me_mkInf E crd_gvr [])])
    (main_informers E cfg wgpool p)"
  using start_informers [OF assms(2), of E cfg p] assms(1)
  by (auto simp: after_database_def process_simps)

lemma crd_informer_found:
  "find_informer [(getInformerKey crd_gvr ''CustomResourceDefinition'' [], ifm)] crd_gvr
     ''CustomResourceDefinition'' ns = Some ifm"
  by (simp add: find_informer_def)

lemma main_start_yields: "yields (\<lambda>pr p. fully_started p \<and> wired E pr) (main_start E)"
  unfolding main_start_def
  apply (rule yields_bind [OF yields_metrics], clarsimp)
  apply (rule yields_bind [OF yields_database], assumption)
  apply (rule yields_bind [OF yields_clients], assumption, clarsimp)
  apply (rule yields_bind [OF yields_pipeline], assumption, clarsimp)
  apply (rule yields_bind [OF yields_storage], assumption)
  apply (rule yields_bind [OF yields_workers], assumption, clarsimp)
  apply (rule yields_bind [OF yields_informers], assumption, assumption)
  apply (auto simp: fully_started_def wired_def after_database_def crd_informer_found)
  done

text \<open>Every call that may fail has succeeded.\<close>

definition all_succeed :: "('rc, 'q) main_env \<Rightarrow> bool" where
  "all_succeed E \<longleftrightarrow>
     (\<exists>cfg m pg rc client disc.
        Setup (me_strconv E) (me_env E) (me_paramOrd E) (me_connectionURL E) (me_args E) = Inr cfg \<and>
        telemetry_Setup (me_exporter E) (me_merge E) (me_create E) (me_register E)
          \<lparr>Enabled = cfg_OTelEnabled cfg, ServiceName = ''resources-ingester'',
           ExportInterval = cfg_OTelExportIntv cfg\<rparr> = Inr m \<and>
        fst (WaitForPostgres E (cfg_DbURL cfg)) = Inr pg \<and> me_InClusterConfig E = Inr rc \<and>
        me_newDynamic E rc = Inr client \<and> me_newDiscovery E rc = Inr disc)"

lemma bind_startup_Cont:
  "bind_startup r f = Cont y p \<longleftrightarrow> (\<exists>x p'. r = Cont x p' \<and> f x p' = Cont y p)"
  by (cases r) auto

lemma main_metrics_Cont:
  "main_metrics E = Cont (cfg, m) p \<Longrightarrow>
     Setup (me_strconv E) (me_env E) (me_paramOrd E) (me_connectionURL E) (me_args E) = Inr cfg \<and>
     telemetry_Setup (me_exporter E) (me_merge E) (me_create E) (me_register E)
       \<lparr>Enabled = cfg_OTelEnabled cfg, ServiceName = ''resources-ingester'',
        ExportInterval = cfg_OTelExportIntv cfg\<rparr> = Inr m"
  by (auto simp: main_metrics_def Let_def split: sum.splits)

lemma main_database_Cont:
  "main_database E cfg p = Cont pg p' \<Longrightarrow> fst (WaitForPostgres E (cfg_DbURL cfg)) = Inr pg"
  by (auto simp: main_database_def Let_def split: sum.splits)

lemma main_clients_Cont:
  "main_clients E p = Cont (rc, client, cluster) p' \<Longrightarrow>
     me_InClusterConfig E = Inr rc \<and> me_newDynamic E rc = Inr client"
  by (auto simp: main_clients_def split: sum.splits)

lemma main_storage_Cont:
  "main_storage E rc pg cluster p = Cont sto p' \<Longrightarrow> \<exists>disc. me_newDiscovery E rc = Inr disc"
  by (auto simp: main_storage_def storage_NewManager_def NewObjectResolver_def split: sum.splits)

lemma main_start_Cont_succeed:
  assumes "main_start E = Cont pr p"
  shows "all_succeed E"
proof -
  from assms obtain cfg m pg rc client cluster sto p1 p2 p3 p4 p5 p6 where
    "main_metrics E = Cont (cfg, m) p1" "main_database E cfg p1 = Cont pg p2"
    "main_clients E p2 = Cont (rc, client, cluster) p3" "main_storage E rc pg cluster p4 = Cont sto p5"
    unfolding main_start_def bind_startup_Cont by (auto simp: bind_startup_Cont)
  then show ?thesis
    using main_metrics_Cont main_database_Cont main_clients_Cont main_storage_Cont
    unfolding all_succeed_def by meson
qed

lemma succeed_not_exit:
  assumes "all_succeed E"
  shows "main_start E \<noteq> Exits r p"
proof -
  obtain cfg m pg rc client disc where
    ok: "Setup (me_strconv E) (me_env E) (me_paramOrd E) (me_connectionURL E) (me_args E) = Inr cfg"
      "telemetry_Setup (me_exporter E) (me_merge E) (me_create E) (me_register E)
        \<lparr>Enabled = cfg_OTelEnabled cfg, ServiceName = ''resources-ingester'',
         ExportInterval = cfg_OTelExportIntv cfg\<rparr> = Inr m"
      "fst (WaitForPostgres E (cfg_DbURL cfg)) = Inr pg" "me_InClusterConfig E = Inr rc"
      "me_newDynamic E rc = Inr client" "me_newDiscovery E rc = Inr disc"
    using assms unfolding all_succeed_def by blast
  obtain p1 where 1: "main_metrics E = Cont (cfg, m) p1"
    by (simp add: main_metrics_def ok Let_def)
  obtain p2 where 2: "main_database E cfg p1 = Cont pg p2" by (simp add: main_database_def ok Let_def)
  have 3: "main_clients E p2 = Cont (rc, client, me_clusterName E rc) p2" by (simp add: main_clients_def ok)
  obtain w q p4 where 4: "main_pipeline p2 = Cont (w, q) p4" using start_pipeline [of p2] by blast
  obtain sto p5 where 5: "main_storage E rc pg (me_clusterName E rc) p4 = Cont sto p5"
    by (simp add: main_storage_def storage_NewManager_def NewObjectResolver_def ok Let_def)
  obtain ing wg p6 where 6: "main_workers E m p5 = Cont (ing, wg) p6" "wp_informers wg = []"
    by (simp add: start_workers_pool NewWorkerPool_def)
  obtain x p7 where 7: "main_informers E cfg wg p6 = Cont x p7" using start_informers [OF 6(2)] by blast
  then show ?thesis by (cases x) (simp add: main_start_def 1 2 3 4 5 6)
qed

text \<open>The gauges of a reporting loop.\<close>

definition gauges_in :: "nat \<Rightarrow> nat \<Rightarrow> Metrics option \<Rightarrow> bool" where
  "gauges_in rc cap m \<longleftrightarrow>
     (case m of None \<Rightarrow> True
      | Some m \<Rightarrow> 0 \<le> queueDepth m \<and> queueDepth m \<le> int cap \<and>
                  0 \<le> recordChannelDepth m \<and> recordChannelDepth m \<le> int rc)"

definition reading_of :: "(pipeline \<Rightarrow> bool) \<Rightarrow> loop_event \<Rightarrow> bool" where
  "reading_of R ev \<longleftrightarrow>
     (case ev of LoopDone \<Rightarrow> True
      | LoopTick sn \<Rightarrow> (\<exists>s. R s \<and> sn_recordChan sn = env (pq s) \<and> sn_jobQueue sn = pq s))"

lemma gauge_tick_in:
  assumes "pipe_inv rc cap n ord w s" and "sn_recordChan sn = env (pq s)" "sn_jobQueue sn = pq s"
  shows "gauges_in rc cap (gauge_tick sn m)"
  using assms
  by (cases m) (auto simp: gauges_in_def gauge_tick_def metrics_defs pipe_inv_def chan_ok_def cq_acct_def
      GetJobCount_def Let_def)

lemma gauge_loop_in:
  assumes "\<And>s. R s \<Longrightarrow> pipe_inv rc cap n ord w s" and "\<forall>ev \<in> set evs. reading_of R ev"
    and "gauges_in rc cap m"
  shows "gauges_in rc cap (gauge_loop evs m)"
  using assms(2,3)
  by (induction evs m rule: gauge_loop.induct) (auto simp: reading_of_def intro: gauge_tick_in assms(1))

subsection \<open>Properties\<close>

text \<open>
  C7: The start-up. Whatever the command line, the environment and the libraries say, the program never
  panics while starting. It starts completely exactly when every call that may fail succeeds; then the
  probe server, the batch worker, the job queue, storage, the pool, the manager, the router of the
  resource definitions and the two reporting loops have been started in this order, the five deferred
  calls are in place, queue and batch worker have the sizes 100, 1000, 4 and 50 on the fresh record
  channel, the manager runs no router yet, and the pool finds the informer of the resource definitions
  in every namespace. Otherwise it exits, at once and with none of the deferred calls made. What it
  leaves behind depends on the failure: nothing runs and no pool is open when the configuration, the
  metrics or the database fail; the probe server runs and the pool is open when a Kubernetes client
  cannot be made; and the batch worker and the queue run, too, when the storage manager cannot.
\<close>

theorem main_start_result:
  "(case main_start E of
      Cont pr p \<Rightarrow> all_succeed E \<and> fully_started p \<and> wired E pr
    | Exits r p \<Rightarrow> \<not> all_succeed E \<and> exit_state r p
    | Crashes e p \<Rightarrow> False)"
proof -
  have "yields (\<lambda>pr p. fully_started p \<and> wired E pr) (main_start E)" by (rule main_start_yields)
  then show ?thesis using main_start_Cont_succeed [of E] succeed_not_exit [of E]
    by (cases "main_start E") auto
qed

text \<open>
  The exported gauges tell the truth within bounds: whatever the reporting loop reads from reachable
  states of queue and record channel, the reported depths are never negative, the queue's never above
  its capacity and the channel's never above its size.
\<close>

theorem gauges_bounded:
  assumes "\<forall>n. any_order (ord n)" and "buffer w = []" and "0 < maxBatch w" and "gauges_in rc cap m"
    and "\<forall>ev \<in> set evs. reading_of (reach (pipe_init rc cap n w m0) (pipe_step res ord dur)) ev"
  shows "case gauge_loop evs m of None \<Rightarrow> m = None
    | Some m' \<Rightarrow> (\<exists>d c. observe m' = [(''resources_ingester.queue.depth'', d),
          (''resources_ingester.record_channel.depth'', c)] \<and>
        0 \<le> d \<and> d \<le> int cap \<and> 0 \<le> c \<and> c \<le> int rc)"
proof -
  have "gauges_in rc cap (gauge_loop evs m)"
    by (rule gauge_loop_in [OF pipe_reach_inv [OF assms(1-3)] assms(5,4)])
  moreover have "gauge_loop evs m = None \<Longrightarrow> m = None"
    by (induction evs m rule: gauge_loop.induct)
       (auto simp: gauge_tick_def metrics_defs Let_def)
  ultimately show ?thesis by (auto simp: gauges_in_def observe_def split: option.split)
qed

theorem gauges_bounded_witness:
  "\<exists>d c. observe (the (gauge_loop
       [LoopTick \<lparr>sn_recordChan = make_chan 100, sn_jobQueue = cq_start 1000 4 (make_chan 100),
          sn_manager = sample_manager, sn_goroutines = 30\<rparr>, LoopDone]
       (Some \<lparr>calls = [], queueDepth = 0, recordChannelDepth = 0, goRoutines = 0,
          activeInformerKinds = 0\<rparr>))) =
     [(''resources_ingester.queue.depth'', d), (''resources_ingester.record_channel.depth'', c)] \<and>
     0 \<le> d \<and> d \<le> 1000 \<and> 0 \<le> c \<and> c \<le> 100"
proof -
  let ?sn = "\<lparr>sn_recordChan = make_chan 100, sn_jobQueue = cq_start 1000 4 (make_chan 100),
    sn_manager = sample_manager, sn_goroutines = 30\<rparr>"
  let ?m = "Some \<lparr>calls = [], queueDepth = 0, recordChannelDepth = 0, goRoutines = 0,
    activeInformerKinds = 0\<rparr>"
  let ?s = "\<lparr>pq = cq_start 1000 4 (make_chan 100), pb = batch_init (sample_worker []) None, taken = []\<rparr>"
  let ?R = "reach (pipe_init 100 1000 4 (sample_worker []) None) (pipe_step (\<lambda>_. None) (\<lambda>_ m. m) (\<lambda>_. 0))"
  have "?R ?s" by (rule reach_init) (simp add: pipe_init_def cq_start_init)
  then have "\<forall>ev \<in> set [LoopTick ?sn, LoopDone]. reading_of ?R ev"
    by (auto simp: reading_of_def cq_start_def NewQueue_def intro!: exI [of _ ?s])
  moreover have "\<forall>n :: nat. any_order (\<lambda>m. m)" "buffer (sample_worker []) = []" "0 < maxBatch (sample_worker [])"
    "gauges_in 100 1000 ?m" by (simp_all add: sample_worker_def gauges_in_def)
  moreover have "gauge_loop [LoopTick ?sn, LoopDone] ?m \<noteq> None"
    by (simp add: gauge_tick_def metrics_defs Let_def)
  ultimately show ?thesis
    using gauges_bounded [of "\<lambda>_ m. m" "sample_worker []" 100 1000 ?m "[LoopTick ?sn, LoopDone]" 4 None
        "\<lambda>_. None" "\<lambda>_. 0"]
    by (cases "gauge_loop [LoopTick ?sn, LoopDone] ?m") (simp_all only: option.case option.sel of_nat_numeral, blast+)
qed

end
