(* ===== verification/Shutdown.thy ===== *)
theory Shutdown
  imports MainProgram
begin

text \<open>
  The end of the program: \<^verbatim>\<open>main\<close> makes its last calls (\<open>main_shutdown\<close>) while the job queue and the batch
  worker (\<open>pipe_step\<close>) still run. When \<^verbatim>\<open>main\<close> has made its last call the process is over, whatever
  the goroutines were doing.
\<close>

subsection \<open>Steps\<close>

record sd_state =
  pl :: pipeline
  todo :: "main_call list"
  db_open :: bool
  ctxDone :: bool

text \<open>
  After \<^verbatim>\<open>pool.Close()\<close> the database driver refuses statements. The root context is done after a signal;
  only then the batch worker sees its stop channel closed. \<^verbatim>\<open>Terminate\<close> moves only while \<^verbatim>\<open>main\<close> is in that
  call, and \<^verbatim>\<open>main\<close> leaves it when it is done.
\<close>

inductive sd_step ::
  "((string \<times> sqlval list) list \<Rightarrow> goerror option) \<Rightarrow>
     (nat \<Rightarrow> (string, InsertRecord) gomap \<Rightarrow> (string, InsertRecord) gomap) \<Rightarrow> (nat \<Rightarrow> int) \<Rightarrow>
     sd_state \<Rightarrow> sd_state \<Rightarrow> bool"
  for res ord dur
where
  sd_signal: "todo s \<noteq> [] \<Longrightarrow> sd_step res ord dur s (s\<lparr>ctxDone := True\<rparr>)"
| sd_pipe: "todo s \<noteq> [] \<Longrightarrow>
    pipe_step (if db_open s then res else (\<lambda>_. Some ''closed pool'')) ord dur (pl s) p \<Longrightarrow>
    stopped (pb p) = stopped (pb (pl s)) \<or> ctxDone s \<Longrightarrow>
    term_pc (pq p) = term_pc (pq (pl s)) \<or> hd (todo s) = Deferred TerminateQueue \<Longrightarrow>
    sd_step res ord dur s (s\<lparr>pl := p\<rparr>)"
| sd_call: "ctxDone s \<Longrightarrow> todo s = c # cs \<Longrightarrow>
    c \<noteq> Deferred TerminateQueue \<or> term_pc (pq (pl s)) = TDone \<Longrightarrow>
    sd_step res ord dur s (s\<lparr>todo := cs, db_open := (db_open s \<and> c \<noteq> Deferred ClosePool)\<rparr>)"

text \<open>The program as \<open>main_start\<close> leaves it.\<close>

definition sd_init :: "process \<Rightarrow> Worker \<Rightarrow> Metrics option \<Rightarrow> sd_state \<Rightarrow> bool" where
  "sd_init p w m s \<longleftrightarrow>
     pipe_init 100 1000 4 w m (pl s) \<and> todo s = main_shutdown p \<and> db_open s \<and> \<not> ctxDone s"

subsection \<open>Lemmas\<close>

definition last_calls :: "main_call list" where
  "last_calls =
     [ShutDownQueue, WaitPool, ShutdownProbes, Deferred CancelShutdownCtx, Deferred TerminateQueue,
      Deferred ClosePool, Deferred CancelPgCtx, Deferred ShutdownMetrics, Deferred StopSignals]"

lemma shutdown_calls: "fully_started p \<Longrightarrow> main_shutdown p = last_calls"
  by (simp add: main_shutdown_def fully_started_def defer_call_def last_calls_def)

lemma last_calls_nth:
  assumes "k < length last_calls"
  shows "(last_calls ! k = Deferred TerminateQueue \<longleftrightarrow> k = 4) \<and> (last_calls ! k = Deferred ClosePool \<longleftrightarrow> k = 5)"
proof -
  from assms have "k \<in> {0, 1, 2, 3, 4, 5, 6, 7, 8}" by (auto simp: last_calls_def)
  then show ?thesis by (elim insertE emptyE) (simp_all add: last_calls_def)
qed

lemma drop_Cons_nth: "drop k xs = c # cs \<Longrightarrow> k < length xs \<and> c = xs ! k \<and> cs = drop (Suc k) xs"
  by (metis Cons_nth_drop_Suc drop_eq_Nil2 leI list.distinct(1) list.inject)

lemma cq_rule_TDone: "cq_rule run q q' \<Longrightarrow> term_pc q = TDone \<Longrightarrow> term_pc q' = TDone"
  by (induction rule: cq_rule.induct) (auto simp: cq_panic_def)

lemma pipe_step_TDone:
  assumes "pipe_step res ord dur s t" and "term_pc (pq s) = TDone"
  shows "term_pc (pq t) = TDone"
  using assms(1) by cases (use assms(2) in \<open>auto simp: cq_step_def dest: cq_rule_TDone\<close>)

text \<open>What \<^verbatim>\<open>main\<close> still has to do tells what it has done.\<close>

definition sd_inv :: "sd_state \<Rightarrow> bool" where
  "sd_inv s \<longleftrightarrow>
     (\<exists>k. todo s = drop k last_calls \<and> k \<le> length last_calls \<and> (0 < k \<longrightarrow> ctxDone s) \<and>
        (db_open s \<longleftrightarrow> k \<le> 5) \<and> (4 < k \<longrightarrow> term_pc (pq (pl s)) = TDone))"

interpretation sd: transition_system "sd_init p w m" "sd_step res ord dur" "\<lambda>s. fully_started p \<longrightarrow> sd_inv s"
  for p w m res ord dur
proof (unfold_locales, goal_cases)
  case (1 s)
  then show ?case by (auto simp: sd_init_def sd_inv_def shutdown_calls intro: exI [of _ 0])
next
  case (2 s t)
  show ?case
  proof
    assume "fully_started p"
    with 2(1) obtain k where k: "todo s = drop k last_calls" "k \<le> length last_calls"
      "0 < k \<longrightarrow> ctxDone s" "db_open s \<longleftrightarrow> k \<le> 5" "4 < k \<longrightarrow> term_pc (pq (pl s)) = TDone"
      by (auto simp: sd_inv_def)
    from 2(2) show "sd_inv t"
    proof cases
      case (sd_call c cs)
      from drop_Cons_nth [of k last_calls c cs] last_calls_nth [of k] sd_call k
      have "cs = drop (Suc k) last_calls" "Suc k \<le> length last_calls"
        "db_open t \<longleftrightarrow> Suc k \<le> 5" "4 < Suc k \<longrightarrow> term_pc (pq (pl s)) = TDone"
        by (auto simp: less_Suc_eq)
      then show ?thesis using sd_call by (auto simp: sd_inv_def intro!: exI [of _ "Suc k"])
    next
      case sd_signal
      then show ?thesis using k by (auto simp: sd_inv_def intro!: exI [of _ k])
    next
      case (sd_pipe q)
      then show ?thesis using k pipe_step_TDone [OF sd_pipe(3)] by (auto simp: sd_inv_def intro!: exI [of _ k])
    qed
  qed
qed

subsection \<open>Schedules\<close>

lemma sd_queue_schedule:
  assumes "reach I (sd_step res ord dur) s" and "todo s \<noteq> []"
    and "cq_exec_all record_run (\<lambda>q. jobs_timed q \<and> G q) as (pq (pl s)) = Some q"
    and "hd (todo s) = Deferred TerminateQueue \<or>
      term_pc (pq (pl s)) = TNone \<and> (\<forall>q. G q \<longrightarrow> term_pc q = TNone)"
  shows "reach I (sd_step res ord dur) (s\<lparr>pl := (pl s)\<lparr>pq := q\<rparr>\<rparr>)"
  using assms
proof (induction "as" arbitrary: s)
  case Nil
  then have "s\<lparr>pl := (pl s)\<lparr>pq := q\<rparr>\<rparr> = s" by (cases s; cases "pl s") auto
  then show ?case using Nil(1) by metis
next
  case (Cons a "as")
  from Cons.prems(3) obtain p where p: "\<not> panicked (wps (pq (pl s)))"
    "cq_exec record_run a (pq (pl s)) = Some p" "jobs_timed p" "G p"
    "cq_exec_all record_run (\<lambda>q. jobs_timed q \<and> G q) as p = Some q"
    by (auto split: if_splits option.splits)
  have "cq_step record_run (pq (pl s)) p" using p by (simp add: cq_step_def cq_exec_sound)
  then have "pipe_step (if db_open s then res else (\<lambda>_. Some ''closed pool'')) ord dur (pl s)
      ((pl s)\<lparr>pq := p\<rparr>)"
    using p(3) by (auto simp: jobs_timed_def intro: pipe_queue)
  from sd_pipe [OF Cons.prems(2) this] Cons.prems(4) p(4)
  have "sd_step res ord dur s (s\<lparr>pl := (pl s)\<lparr>pq := p\<rparr>\<rparr>)" by auto
  from Cons.IH [OF reach_step [OF Cons.prems(1) this]] Cons.prems(2,4) p(4,5) show ?case by auto
qed

lemma sd_calls:
  assumes "reach I (sd_step res ord dur) s" and "ctxDone s" and "todo s = cs @ ds"
    and "Deferred TerminateQueue \<notin> set cs \<or> term_pc (pq (pl s)) = TDone"
  shows "reach I (sd_step res ord dur)
    (s\<lparr>todo := ds, db_open := (db_open s \<and> Deferred ClosePool \<notin> set cs)\<rparr>)"
  using assms
proof (induction cs arbitrary: s)
  case Nil
  then have "s\<lparr>todo := ds, db_open := db_open s\<rparr> = s" by (cases s) auto
  then show ?case using Nil(1) by simp
next
  case (Cons c cs)
  have "sd_step res ord dur s (s\<lparr>todo := cs @ ds, db_open := (db_open s \<and> c \<noteq> Deferred ClosePool)\<rparr>)"
    using Cons.prems by (intro sd_call) auto
  from Cons.IH [OF reach_step [OF Cons.prems(1) this]] Cons.prems(2-) show ?case
    by (auto simp: eq_commute [of "Deferred ClosePool" c])
qed

text \<open>One job goes through the queue; then, without any further job, \<^verbatim>\<open>Terminate\<close> runs to its end.\<close>

lemma one_job_runs:
  assumes "timed (Record j)"
  shows "\<exists>q. cq_exec_all record_run (\<lambda>q. jobs_timed q \<and> term_pc q = TNone)
      [APushCheck j, APushAdd 0, APushSend 0, ADispRecv, ADispWorker, ADispSend, AWorker (ARun 0),
       AWorker (AReturn 0), AWorker (ADone 0)] (cq_start 1000 4 (make_chan 100)) = Some q \<and>
    chan_recv (env q) = Received (Record j) (make_chan 100) \<and> accepted q = [j] \<and>
    executed (wps q) = [j] \<and> term_pc q = TNone \<and>
    (\<exists>q'. cq_exec_all record_run (\<lambda>q. jobs_timed q \<and> True)
        [ATermBegin, ATermWaited, ATermCloseJobs, ATermStop, ATermStop, ATermStop, ATermStop, ATermStop,
         ATermClosePool] (q\<lparr>env := make_chan 100\<rparr>) = Some q' \<and>
      accepted q' = [j] \<and> executed (wps q') = [j] \<and> term_pc q' = TDone)"
  using assms
  by (simp add: schedule_simps upt_rec jobs_timed_def record_run_def InsertRecordJob_Job_def)

lemma loses_buffer:
  assumes "fully_started p" and "buffer w = []" and "maxBatch w = 50" and "timed (Record j)"
  shows "\<exists>s. reach (sd_init p w m) (sd_step res ord dur) s \<and> todo s = [] \<and>
    accepted (pq (pl s)) = [j] \<and> executed (wps (pq (pl s))) = [j] \<and>
    db (pb (pl s)) = [] \<and> buffer (worker (pb (pl s))) = [Record j]"
proof -
  let ?R = "reach (sd_init p w m) (sd_step res ord dur)"
  obtain q q' where q: "cq_exec_all record_run (\<lambda>q. jobs_timed q \<and> term_pc q = TNone)
      [APushCheck j, APushAdd 0, APushSend 0, ADispRecv, ADispWorker, ADispSend, AWorker (ARun 0),
       AWorker (AReturn 0), AWorker (ADone 0)] (cq_start 1000 4 (make_chan 100)) = Some q"
    "chan_recv (env q) = Received (Record j) (make_chan 100)" "term_pc q = TNone"
    and q': "cq_exec_all record_run (\<lambda>q. jobs_timed q \<and> True)
        [ATermBegin, ATermWaited, ATermCloseJobs, ATermStop, ATermStop, ATermStop, ATermStop, ATermStop,
         ATermClosePool] (q\<lparr>env := make_chan 100\<rparr>) = Some q'"
      "accepted q' = [j]" "executed (wps q') = [j]" "term_pc q' = TDone"
    using one_job_runs [OF assms(4)] by blast
  define s0 where "s0 = \<lparr>pl = \<lparr>pq = cq_start 1000 4 (make_chan 100), pb = batch_init w m, taken = []\<rparr>,
    todo = last_calls, db_open = True, ctxDone = False\<rparr>"
  define b where "b = (batch_init w m)\<lparr>worker := w\<lparr>buffer := [Record j]\<rparr>\<rparr>"
  define p1 where "p1 = \<lparr>pq = q\<lparr>env := make_chan 100\<rparr>, pb = b, taken = [Record j]\<rparr>"
  have s0: "pq (pl s0) = cq_start 1000 4 (make_chan 100)" "todo s0 \<noteq> []" "term_pc (pq (pl s0)) = TNone"
    by (simp_all add: s0_def last_calls_def cq_start_def NewQueue_def)
  have "?R s0"
    by (rule reach_init)
       (simp add: s0_def sd_init_def pipe_init_def cq_start_init shutdown_calls [OF assms(1)])
  then have 1: "?R (s0\<lparr>pl := (pl s0)\<lparr>pq := q\<rparr>\<rparr>)"
    by (rule sd_queue_schedule [OF _ s0(2) q(1) [folded s0(1)]]) (simp add: s0(3))
  have "sd_step res ord dur (s0\<lparr>pl := (pl s0)\<lparr>pq := q\<rparr>\<rparr>) (s0\<lparr>pl := p1\<rparr>)"
    using sd_pipe [of "s0\<lparr>pl := (pl s0)\<lparr>pq := q\<rparr>\<rparr>" res ord dur p1]
      pipe_recv [of "pl s0\<lparr>pq := q\<rparr>" "Record j" "make_chan 100" res ord dur b] q(2) assms(2,3)
    by (simp add: s0_def last_calls_def batch_init_def b_def p1_def)
  with 1 have 2: "?R (s0\<lparr>pl := p1\<rparr>)" by (rule reach_step)
  have "sd_step res ord dur (s0\<lparr>pl := p1\<rparr>) (s0\<lparr>pl := p1, ctxDone := True\<rparr>)"
    using sd_signal [of "s0\<lparr>pl := p1\<rparr>"] by (simp add: s0_def last_calls_def)
  with 2 have "?R (s0\<lparr>pl := p1, ctxDone := True\<rparr>)" by (rule reach_step)
  from sd_calls [OF this, of "take 4 last_calls" "drop 4 last_calls"]
  have 3: "?R (s0\<lparr>pl := p1, ctxDone := True, todo := drop 4 last_calls\<rparr>)"
    by (simp add: s0_def last_calls_def)
  let ?s4 = "s0\<lparr>pl := p1\<lparr>pq := q'\<rparr>, ctxDone := True, todo := drop 4 last_calls\<rparr>"
  have 4: "?R ?s4"
    using sd_queue_schedule [OF 3 _ _ disjI1, of "\<lambda>_. True"] q'(1)
    by (simp add: p1_def s0_def last_calls_def del: cq_exec_all.simps)
  from sd_calls [OF 4, of "drop 4 last_calls" "[]"] q'(4)
  have "?R (?s4\<lparr>todo := [], db_open := False\<rparr>)" by (simp add: s0_def last_calls_def)
  then show ?thesis
    using q'(2,3) by (intro exI conjI) (auto simp: p1_def b_def batch_init_def)
qed

subsection \<open>Properties\<close>

text \<open>Libraries that answer every call, and a database with the expected columns.\<close>

definition sample_env :: "(unit, rate_limiter) main_env" where
  "sample_env =
     \<lparr>me_strconv = \<lparr>parseInt = (\<lambda>_. None), parseDuration = (\<lambda>_. None)\<rparr>,
      me_env = \<lparr>env_ServicePort = (\<lambda>n d. d), env_Bool = (\<lambda>n d. d), env_String = (\<lambda>n d. d),
        env_Int = (\<lambda>n d. d), env_Duration = (\<lambda>n d. d)\<rparr>, me_args = [''-db-host=pg''],
      me_paramOrd = (\<lambda>m. m), me_connectionURL = (\<lambda>u p h n d ps. Inr ''postgres://''),
      me_exporter = None, me_merge = None, me_create = (\<lambda>_. None), me_register = None,
      me_connect = (\<lambda>_. Inr 7), me_until = (\<lambda>f. f 0), me_tableAnswers = (\<lambda>_. Inr True),
      me_columnOrd = (\<lambda>m. m), me_columns = (\<lambda>_. Inr (map Inr expectedColumns, None)),
      me_InClusterConfig = Inr (), me_newDynamic = (\<lambda>_. Inr 1), me_newDiscovery = (\<lambda>_. Inr 2),
      me_newMemCache = (\<lambda>_. 3), me_newMapper = (\<lambda>_. 4), me_clusterName = (\<lambda>_. ''k1''),
      me_newQueue = (\<lambda>r. r), me_eventbus = 5, me_mkInf = (\<lambda>g ns. 0)\<rparr>"

lemma sample_schema: "validateSchema (\<lambda>m. m) (\<lambda>_. Inr (map Inr expectedColumns, None)) pg_tableName = None"
  by code_simp

lemma sample_flags:
  "flag_parse_loop \<lparr>parseInt = (\<lambda>_. None), parseDuration = (\<lambda>_. None)\<rparr> declared_flags [''-db-host=pg''] [] =
     Inr [(''db-host'', ''pg'')]"
  by code_simp

lemma sample_Setup:
  "\<exists>cfg. Setup (me_strconv sample_env) (me_env sample_env) (me_paramOrd sample_env) (me_connectionURL sample_env)
     (me_args sample_env) = Inr cfg \<and> \<not> cfg_OTelEnabled cfg"
  by (simp add: sample_env_def Setup_def sample_flags configure_def flag_variables_def flag_String_def
      flag_value_def parseDBParams_def Let_def del: flag_parse_loop.simps)

lemma sample_env_starts: "\<exists>pr p. main_start sample_env = Cont pr p"
proof -
  obtain cfg where cfg: "Setup (me_strconv sample_env) (me_env sample_env) (me_paramOrd sample_env)
      (me_connectionURL sample_env) (me_args sample_env) = Inr cfg" "\<not> cfg_OTelEnabled cfg"
    using sample_Setup by blast
  moreover have "fst (WaitForPostgres sample_env (cfg_DbURL cfg)) = Inr 7"
    by (simp add: sample_env_def WaitForPostgres_def WaitForPostgresWithOptions_def table_attempt_def
        tableExists_def sample_schema)
  ultimately have "all_succeed sample_env"
    unfolding all_succeed_def by (intro exI conjI) (auto simp: telemetry_Setup_def sample_env_def)
  then show ?thesis
    using succeed_not_exit [of sample_env] main_start_yields [of sample_env]
    by (cases "main_start sample_env") auto
qed

text \<open>
  C18: The order of the shutdown. In every interleaving of the last calls with the queue and the batch
  worker, once the database pool is closed the root context is done, the work queue has been shut
  down, the pool and the probe server have been waited for, and \<^verbatim>\<open>Terminate\<close> of the job queue has
  returned; it stays so to the end.
\<close>

theorem database_closed_last:
  assumes "main_start E = Cont pr p" and "reach (sd_init p (pr_batch pr) m) (sd_step res ord dur) s"
    and "\<not> db_open s"
  shows "ctxDone s \<and> term_pc (pq (pl s)) = TDone \<and>
    set (todo s) \<subseteq> {Deferred CancelPgCtx, Deferred ShutdownMetrics, Deferred StopSignals}"
proof -
  have "yields (\<lambda>pr p. fully_started p \<and> wired E pr) (main_start E)" by (rule main_start_yields)
  then have "fully_started p" using assms(1) by simp
  then have "sd_inv s" using sd.reach_invar [OF assms(2)] by blast
  then obtain k where k: "todo s = drop k last_calls" "0 < k \<longrightarrow> ctxDone s" "db_open s \<longleftrightarrow> k \<le> 5"
    "4 < k \<longrightarrow> term_pc (pq (pl s)) = TDone" by (auto simp: sd_inv_def)
  then have "6 \<le> k" using assms(3) by simp
  then have "set (drop k last_calls) \<subseteq> set (drop 6 last_calls)" by (rule set_drop_subset_set_drop)
  then show ?thesis using k \<open>6 \<le> k\<close> by (auto simp: last_calls_def)
qed

theorem database_closed_last_witness:
  "\<exists>pr p s. main_start sample_env = Cont pr p \<and>
     reach (sd_init p (pr_batch pr) None) (sd_step (\<lambda>_. None) (\<lambda>_ m. m) (\<lambda>_. 0)) s \<and> \<not> db_open s \<and>
     term_pc (pq (pl s)) = TDone"
proof -
  obtain pr p where mp: "main_start sample_env = Cont pr p" using sample_env_starts by blast
  then have "fully_started p \<and> wired sample_env pr" using main_start_yields [of sample_env] by simp
  then have w: "fully_started p" "buffer (pr_batch pr) = []" "maxBatch (pr_batch pr) = 50"
    by (simp_all add: wired_def)
  obtain s where s: "reach (sd_init p (pr_batch pr) None) (sd_step (\<lambda>_. None) (\<lambda>_ m. m) (\<lambda>_. 0)) s" "todo s = []"
    using loses_buffer [OF w, of "sample_job ''1''"] by (force simp: sample_job_def)
  then have "sd_inv s" using sd.reach_invar [OF s(1)] w(1) by blast
  then have "\<not> db_open s" using s(2) by (auto simp: sd_inv_def last_calls_def)
  then show ?thesis using database_closed_last [OF mp s(1)] mp s(1) by blast
qed

text \<open>
  C20: The shutdown loses records. \<^verbatim>\<open>main\<close> waits for the queue but not for the batch worker: for every
  record there is a run of the started program in which its job is accepted and executed, the batch
  worker has it in its buffer, a signal arrives, \<^verbatim>\<open>main\<close> makes all its calls, \<^verbatim>\<open>Terminate\<close> and the closing of
  the database among them, and ends the process, and no statement was ever sent.
\<close>

theorem shutdown_loses_records:
  assumes "main_start E = Cont pr p" and "timed (Record j)"
  shows "\<exists>s. reach (sd_init p (pr_batch pr) m) (sd_step res ord dur) s \<and> todo s = [] \<and>
    accepted (pq (pl s)) = [j] \<and> executed (wps (pq (pl s))) = [j] \<and>
    db (pb (pl s)) = [] \<and> buffer (worker (pb (pl s))) = [Record j]"
proof -
  have "yields (\<lambda>pr p. fully_started p \<and> wired E pr) (main_start E)" by (rule main_start_yields)
  then have "fully_started p" "wired E pr" using assms(1) by simp_all
  then show ?thesis using loses_buffer [OF _ _ _ assms(2)] by (simp add: wired_def)
qed

theorem shutdown_loses_records_witness:
  "\<exists>pr p s. main_start sample_env = Cont pr p \<and>
     reach (sd_init p (pr_batch pr) None) (sd_step (\<lambda>_. None) (\<lambda>_ m. m) (\<lambda>_. 0)) s \<and> todo s = [] \<and>
     accepted (pq (pl s)) = [sample_job ''1''] \<and> db (pb (pl s)) = []"
proof -
  obtain pr p where "main_start sample_env = Cont pr p" using sample_env_starts by blast
  moreover have "timed (Record (sample_job ''1''))" by (simp add: sample_job_def)
  ultimately show ?thesis using shutdown_loses_records by blast
qed

end
