(* ===== verification/BusShutdown.thy ===== *)
theory BusShutdown
  imports WorkPoolRun Storage
begin

text \<open>
  The worker pool and storage's subscription at the end of the program. One root context stops both:
  storage's goroutine (\<open>storage_Run\<close>) unsubscribes when it is done, and \<^verbatim>\<open>main\<close> then shuts the work
  queue down and waits for the workers, which still publish what they take off it.

  The event bus is third-party: its state has any type, subscribing, unsubscribing and publishing are
  arguments, and \<open>bus_law\<close> is what the program relies on: a publication reaches the handlers that are
  subscribed to the identifier of its event at that time.
\<close>

subsection \<open>The bus\<close>

text \<open>\<^verbatim>\<open>PublishAsync\<close> gives the bus afterwards and the handlers that are started on the event.\<close>

record 'b eventbus =
  bus_Subscribe :: "string \<Rightarrow> nat \<Rightarrow> 'b \<Rightarrow> 'b"
  bus_Unsubscribe :: "nat \<Rightarrow> 'b \<Rightarrow> 'b"
  bus_PublishAsync :: "InformerEvent \<Rightarrow> 'b \<Rightarrow> 'b \<times> nat list"

definition bus_law :: "'b eventbus \<Rightarrow> ('b \<Rightarrow> string \<Rightarrow> nat set) \<Rightarrow> bool" where
  "bus_law bus subscribed \<longleftrightarrow>
     (\<forall>b k n k'. subscribed (bus_Subscribe bus k n b) k' =
        (if k' = k then insert n (subscribed b k) else subscribed b k')) \<and>
     (\<forall>b n k. subscribed (bus_Unsubscribe bus n b) k = subscribed b k - {n}) \<and>
     (\<forall>b ev. set (snd (bus_PublishAsync bus ev b)) = subscribed b (EventID ev) \<and>
        subscribed (fst (bus_PublishAsync bus ev b)) = subscribed b)"

subsection \<open>Steps\<close>

text \<open>
  Storage's subscription has the number 0; \<open>handled\<close> are the events its handler is started on. A step
  of the pool publishes the events that it adds to \<open>published\<close>, one after the other.
\<close>

record ('b, 'q) bs_state =
  bs_pool :: "'q wp_state"
  bs_bus :: 'b
  bs_storage :: "sub_action list"
  handled :: "InformerEvent list"

fun publish_all :: "'b eventbus \<Rightarrow> InformerEvent list \<Rightarrow> 'b \<Rightarrow> 'b \<times> InformerEvent list" where
  "publish_all bus [] b = (b, [])"
| "publish_all bus (ev # evs) b =
     (case bus_PublishAsync bus ev b of
        (b, hs) \<Rightarrow>
          (case publish_all bus evs b of
             (b, got) \<Rightarrow> (b, (if 0 \<in> set hs then [ev] else []) @ got)))"

definition new_events :: "'q wp_state \<Rightarrow> 'q wp_state \<Rightarrow> InformerEvent list" where
  "new_events p p' = drop (length (published p)) (published p')"

definition publish_new ::
  "'b eventbus \<Rightarrow> 'q wp_state \<Rightarrow> ('b, 'q) bs_state \<Rightarrow> ('b, 'q) bs_state" where
  "publish_new bus p s =
     (case publish_all bus (new_events (bs_pool s) p) (bs_bus s) of
        (b, got) \<Rightarrow> s\<lparr>bs_pool := p, bs_bus := b, handled := handled s @ got\<rparr>)"

text \<open>
  The stop channel of the pool is that of storage, too: the root context. \<^verbatim>\<open>main\<close> calls \<^verbatim>\<open>Wait\<close> only when
  it is closed.
\<close>

inductive bs_step ::
  "kube_api \<Rightarrow> (oheap \<Rightarrow> objref option \<Rightarrow> Operation \<Rightarrow> Target \<Rightarrow> string \<Rightarrow> InformerEvent list) \<Rightarrow>
     (informer \<Rightarrow> string \<Rightarrow> goerror + anyobj option) \<Rightarrow> 'q workqueue \<Rightarrow> 'b eventbus \<Rightarrow>
     ('b, 'q) bs_state \<Rightarrow> ('b, 'q) bs_state \<Rightarrow> bool"
  for api handle store wq bus
where
  bs_work: "wp_step api handle store wq (bs_pool s) p \<Longrightarrow>
    at_wait p = at_wait (bs_pool s) \<or> stop_closed (bs_pool s) \<Longrightarrow>
    bs_step api handle store wq bus s (publish_new bus p s)"
| bs_env: "wp_env wq (bs_pool s) p \<Longrightarrow> bs_step api handle store wq bus s (s\<lparr>bs_pool := p\<rparr>)"
| bs_subscribe: "bs_storage s = SubSubscribe k # rest \<Longrightarrow>
    bs_step api handle store wq bus s
      (s\<lparr>bs_storage := rest, bs_bus := bus_Subscribe bus k 0 (bs_bus s)\<rparr>)"
| bs_stop: "bs_storage s = SubAwaitStop # rest \<Longrightarrow> stop_closed (bs_pool s) \<Longrightarrow>
    bs_step api handle store wq bus s (s\<lparr>bs_storage := rest\<rparr>)"
| bs_unsubscribe: "bs_storage s = SubUnsubscribe # rest \<Longrightarrow>
    bs_step api handle store wq bus s
      (s\<lparr>bs_storage := rest, bs_bus := bus_Unsubscribe bus 0 (bs_bus s)\<rparr>)"

text \<open>The start: nothing subscribed, the pool as \<^verbatim>\<open>NewWorkerPool\<close> makes it.\<close>

definition bs_init :: "('b \<Rightarrow> string \<Rightarrow> nat set) \<Rightarrow> 'q wp_state \<Rightarrow> 'b \<Rightarrow> ('b, 'q) bs_state \<Rightarrow> bool" where
  "bs_init subscribed p b s \<longleftrightarrow>
     s = \<lparr>bs_pool = p, bs_bus = b, bs_storage = storage_Run, handled = []\<rparr> \<and>
     (\<forall>k. 0 \<notin> subscribed b k)"

subsection \<open>Lemmas\<close>

lemma wp_env_published: "wp_env wq s t \<Longrightarrow> published t = published s"
  by (induction rule: wp_env.induct) auto

lemma wp_step_published:
  "wp_step api handle store wq s t \<Longrightarrow> \<exists>evs. published t = published s @ evs"
  by (induction rule: wp_step.induct) auto

lemma publish_all_law:
  assumes "bus_law bus subscribed"
  shows "publish_all bus evs b = (b', got) \<Longrightarrow> subscribed b' = subscribed b \<and>
    got = (if 0 \<in> subscribed b ''informerevent'' then evs else [])"
proof (induction evs arbitrary: b b' got)
  case (Cons ev evs)
  obtain b1 hs where p: "bus_PublishAsync bus ev b = (b1, hs)" by (cases "bus_PublishAsync bus ev b")
  obtain b2 got2 where q: "publish_all bus evs b1 = (b2, got2)" by (cases "publish_all bus evs b1")
  have "set (snd (bus_PublishAsync bus ev b)) = subscribed b (EventID ev) \<and>
      subscribed (fst (bus_PublishAsync bus ev b)) = subscribed b"
    using assms unfolding bus_law_def by blast
  then have "set hs = subscribed b ''informerevent''" "subscribed b1 = subscribed b"
    by (simp_all add: p EventID_def)
  moreover have "subscribed b2 = subscribed b1" "got2 = (if 0 \<in> subscribed b1 ''informerevent'' then evs else [])"
    using Cons.IH [OF q] by simp_all
  moreover have "b' = b2" "got = (if 0 \<in> set hs then [ev] else []) @ got2"
    using Cons.prems by (simp_all add: p q)
  ultimately show ?case by simp
qed simp

text \<open>Storage's goroutine is before, inside or after its subscription.\<close>

definition bs_inv :: "('b \<Rightarrow> string \<Rightarrow> nat set) \<Rightarrow> ('b, 'q) bs_state \<Rightarrow> bool" where
  "bs_inv subscribed s \<longleftrightarrow>
     (\<exists>k. bs_storage s = drop k storage_Run \<and> k \<le> 3 \<and>
        (0 \<in> subscribed (bs_bus s) ''informerevent'' \<longleftrightarrow> k = 1 \<or> k = 2))"

lemma drop_storage_Run:
  "drop k storage_Run = a # rest \<Longrightarrow>
     rest = drop (Suc k) storage_Run \<and>
     (a = SubSubscribe ''informerevent'' \<and> k = 0 \<or> a = SubAwaitStop \<and> k = 1 \<or> a = SubUnsubscribe \<and> k = 2)"
  by (cases k; cases "k - 1"; cases "k - 2") (auto simp: storage_Run_def)

lemma bs_inv_init: "bs_init subscribed p b s \<Longrightarrow> bs_inv subscribed s"
  by (auto simp: bs_init_def bs_inv_def intro!: exI [of _ 0])

lemma publish_new_eq:
  assumes "bus_law bus subscribed"
  shows "bs_pool (publish_new bus p s) = p" "bs_storage (publish_new bus p s) = bs_storage s"
    and "subscribed (bs_bus (publish_new bus p s)) = subscribed (bs_bus s)"
    and "handled (publish_new bus p s) = handled s @
      (if 0 \<in> subscribed (bs_bus s) ''informerevent'' then new_events (bs_pool s) p else [])"
  using publish_all_law [OF assms, of "new_events (bs_pool s) p" "bs_bus s"]
  by (auto simp: publish_new_def split: prod.split)

lemma bs_inv_step:
  assumes "bus_law bus subscribed" and "bs_inv subscribed s" and "bs_step api handle store wq bus s t"
  shows "bs_inv subscribed t"
proof -
  obtain k where k: "bs_storage s = drop k storage_Run" "k \<le> 3"
    "0 \<in> subscribed (bs_bus s) ''informerevent'' \<longleftrightarrow> k = 1 \<or> k = 2"
    using assms(2) by (auto simp: bs_inv_def)
  from assms(3) show ?thesis
  proof cases
    case (bs_work p)
    then show ?thesis using k publish_new_eq [OF assms(1), of p s] by (auto simp: bs_inv_def intro!: exI [of _ k])
  next
    case (bs_env p)
    then show ?thesis using k by (auto simp: bs_inv_def intro!: exI [of _ k])
  next
    case (bs_subscribe c rest)
    then show ?thesis using drop_storage_Run [of k "SubSubscribe c" rest] k assms(1)
      by (auto simp: bs_inv_def bus_law_def intro!: exI [of _ "Suc k"])
  next
    case (bs_stop rest)
    then show ?thesis using drop_storage_Run [of k SubAwaitStop rest] k
      by (auto simp: bs_inv_def intro!: exI [of _ "Suc k"])
  next
    case (bs_unsubscribe rest)
    then show ?thesis using drop_storage_Run [of k SubUnsubscribe rest] k assms(1)
      by (auto simp: bs_inv_def bus_law_def intro!: exI [of _ "Suc k"])
  qed
qed

lemma bs_reach_inv:
  assumes "bus_law bus subscribed" and "reach (bs_init subscribed p b) (bs_step api handle store wq bus) s"
  shows "bs_inv subscribed s"
  using assms(2) by (induction rule: reach.induct) (auto intro: bs_inv_init bs_inv_step [OF assms(1)])

text \<open>What a step hands to storage: all that it publishes while storage is subscribed, nothing after.\<close>

lemma bs_step_handled:
  assumes "bus_law bus subscribed" and "bs_inv subscribed s" and "bs_step api handle store wq bus s t"
  shows "handled t = handled s @
    (if 0 \<in> subscribed (bs_bus s) ''informerevent'' then new_events (bs_pool s) (bs_pool t) else [])"
  using assms(3)
proof cases
  case (bs_work p)
  then show ?thesis using publish_new_eq [OF assms(1), of p s] by simp
qed (auto simp: new_events_def dest: wp_env_published)

lemma subscribed_iff:
  assumes "bs_inv subscribed s"
  shows "bs_storage s = [SubAwaitStop, SubUnsubscribe] \<Longrightarrow> 0 \<in> subscribed (bs_bus s) ''informerevent''"
    and "bs_storage s = [] \<Longrightarrow> 0 \<notin> subscribed (bs_bus s) ''informerevent''"
proof -
  obtain k where k: "bs_storage s = drop k storage_Run" "k \<le> 3"
    "0 \<in> subscribed (bs_bus s) ''informerevent'' \<longleftrightarrow> k = 1 \<or> k = 2"
    using assms by (auto simp: bs_inv_def)
  show "bs_storage s = [SubAwaitStop, SubUnsubscribe] \<Longrightarrow> 0 \<in> subscribed (bs_bus s) ''informerevent''"
    using k drop_storage_Run [of k SubAwaitStop "[SubUnsubscribe]"] by auto
  show "bs_storage s = [] \<Longrightarrow> 0 \<notin> subscribed (bs_bus s) ''informerevent''"
    using k by (auto simp: storage_Run_def)
qed

lemma deaf_step:
  assumes "bs_step api handle store wq bus s t" and "bs_storage s = []"
  shows "bs_storage t = []"
  using assms by cases (auto simp: publish_new_def split: prod.split)

lemma deaf_forever:
  assumes "bus_law bus subscribed" and "(bs_step api handle store wq bus)\<^sup>*\<^sup>* s t"
    and "bs_inv subscribed s" "bs_storage s = []"
  shows "handled t = handled s"
  using assms(2)
proof -
  have "bs_inv subscribed t \<and> bs_storage t = [] \<and> handled t = handled s"
    using assms(2-)
  proof (induction rule: rtranclp_induct)
    case (step t u)
    then have t: "bs_inv subscribed t" "bs_storage t = []" "handled t = handled s" by auto
    then show ?case
      using bs_inv_step [OF assms(1) t(1) step.hyps(2)] deaf_step [OF step.hyps(2) t(2)]
        bs_step_handled [OF assms(1) t(1) step.hyps(2)] subscribed_iff(2) [OF t(1,2)] by simp
  qed simp
  then show ?thesis by simp
qed

text \<open>
  A worker that holds an item when the context ends: storage unsubscribes first, then the worker
  publishes.
\<close>

lemma late_publication:
  assumes "bus_law bus subscribed" and "bs_inv subscribed s"
    and "bs_storage s = [SubAwaitStop, SubUnsubscribe]" "\<not> crashed (bs_pool s)"
    and "i < length (gos (bs_pool s))" "gos (bs_pool s) ! i = HasItem item"
    and "process_item api handle store wq (wheap (bs_pool s)) (wp_informers (wpool (bs_pool s)))
      (wp_queue (wpool (bs_pool s))) (wp_metrics (wpool (bs_pool s))) item = Ok (q, m, evs)"
  shows "\<exists>t. (bs_step api handle store wq bus)\<^sup>*\<^sup>* s t \<and>
    published (bs_pool t) = published (bs_pool s) @ evs \<and> handled t = handled s"
proof -
  let ?step = "bs_step api handle store wq bus"
  let ?p1 = "(bs_pool s)\<lparr>stop_closed := True\<rparr>"
  let ?s1 = "s\<lparr>bs_pool := ?p1\<rparr>"
  let ?s2 = "?s1\<lparr>bs_storage := [SubUnsubscribe]\<rparr>"
  let ?s3 = "?s2\<lparr>bs_storage := [], bs_bus := bus_Unsubscribe bus 0 (bs_bus s)\<rparr>"
  let ?p2 = "?p1\<lparr>gos := (gos ?p1)[i := AtGet], wpool := (wpool ?p1)\<lparr>wp_queue := q, wp_metrics := m\<rparr>,
    published := published ?p1 @ evs\<rparr>"
  have 1: "?step s ?s1" by (rule bs_env, rule env_stop)
  have 2: "?step ?s1 ?s2" by (rule bs_stop) (simp_all add: assms(3))
  have 3: "?step ?s2 ?s3" using bs_unsubscribe [of ?s2 "[]" api handle store wq bus] by simp
  have "wp_step api handle store wq ?p1 ?p2"
    by (rule wp_process [of _ i item]) (use assms(4-7) in simp_all)
  then have 4: "?step ?s3 (publish_new bus ?p2 ?s3)" by (intro bs_work) simp_all
  have inv3: "bs_inv subscribed ?s3"
    using bs_inv_step [OF assms(1) _ 3] bs_inv_step [OF assms(1) _ 2] bs_inv_step [OF assms(1) assms(2) 1] by blast
  have "0 \<notin> subscribed (bs_bus ?s3) ''informerevent''" by (rule subscribed_iff(2) [OF inv3]) simp
  then have "handled (publish_new bus ?p2 ?s3) = handled s" "bs_pool (publish_new bus ?p2 ?s3) = ?p2"
    using publish_new_eq [OF assms(1), of ?p2 ?s3] by simp_all
  moreover have "?step\<^sup>*\<^sup>* s (publish_new bus ?p2 ?s3)"
    using 1 2 3 4 by (meson converse_rtranclp_into_rtranclp rtranclp.rtrancl_refl)
  ultimately show ?thesis by (intro exI [of _ "publish_new bus ?p2 ?s3"]) simp
qed

text \<open>A schedule of the pool that publishes nothing and does not touch \<^verbatim>\<open>Wait\<close>.\<close>

lemma wp_exec_all_published:
  "wp_exec_all api handle store wq as s = Some t \<Longrightarrow> \<exists>evs. published t = published s @ evs"
proof (induction "as" arbitrary: s)
  case (Cons a "as")
  then obtain u where u: "wp_exec api handle store wq a s = Some u" "\<not> crashed s"
    "wp_exec_all api handle store wq as u = Some t"
    by (auto split: if_splits option.splits)
  then show ?case using wp_step_published [OF wp_exec_sound [OF u(1,2)]] Cons.IH [OF u(3)] by auto
qed simp

lemma wp_exec_at_wait:
  "wp_exec api handle store wq a s = Some t \<Longrightarrow> a \<noteq> AWait \<Longrightarrow> a \<noteq> AJoined \<Longrightarrow> at_wait t = at_wait s"
  by (cases a) (auto split: start_pc.splits worker_pc.splits outcome.splits option.splits prod.splits if_splits)

lemma publish_new_silent:
  "published u = published (bs_pool s) \<Longrightarrow> publish_new bus u s = s\<lparr>bs_pool := u\<rparr>"
  by (simp add: publish_new_def new_events_def)

lemma bs_schedule:
  assumes "reach I (bs_step api handle store wq bus) s"
    and "wp_exec_all api handle store wq as (bs_pool s) = Some p"
    and "published p = published (bs_pool s)" "AWait \<notin> set as" "AJoined \<notin> set as"
  shows "reach I (bs_step api handle store wq bus) (s\<lparr>bs_pool := p\<rparr>)"
  using assms
proof (induction "as" arbitrary: s)
  case Nil
  then have "s\<lparr>bs_pool := p\<rparr> = s" by simp
  with Nil.prems(1) show ?case by simp
next
  case (Cons a "as")
  from Cons.prems(2) obtain u where u: "wp_exec api handle store wq a (bs_pool s) = Some u" "\<not> crashed (bs_pool s)"
    "wp_exec_all api handle store wq as u = Some p"
    by (auto split: if_splits option.splits)
  have step: "wp_step api handle store wq (bs_pool s) u" by (rule wp_exec_sound [OF u(1,2)])
  have pub: "published u = published (bs_pool s)"
  proof -
    obtain xs ys where "published u = published (bs_pool s) @ xs" "published p = published u @ ys"
      using wp_step_published [OF step] wp_exec_all_published [OF u(3)] by blast
    then show ?thesis using Cons.prems(3) by simp
  qed
  have "at_wait u = at_wait (bs_pool s)" using wp_exec_at_wait [OF u(1)] Cons.prems(4,5) by auto
  then have "bs_step api handle store wq bus s (publish_new bus u s)" by (intro bs_work [OF step] disjI1)
  with Cons.prems(1) have "reach I (bs_step api handle store wq bus) (publish_new bus u s)" by (rule reach_step)
  moreover have "publish_new bus u s = s\<lparr>bs_pool := u\<rparr>"
    by (rule publish_new_silent) (rule pub)
  ultimately have "reach I (bs_step api handle store wq bus) (s\<lparr>bs_pool := u\<rparr>)" by simp
  from Cons.IH [OF this] have "reach I (bs_step api handle store wq bus) (s\<lparr>bs_pool := u, bs_pool := p\<rparr>)"
    using u(3) pub Cons.prems(3-5) by simp
  then show ?case by simp
qed

subsection \<open>A bus\<close>

definition set_bus :: "(string \<times> nat) list eventbus" where
  "set_bus =
     \<lparr>bus_Subscribe = (\<lambda>k n b. (k, n) # b), bus_Unsubscribe = (\<lambda>n b. filter (\<lambda>x. snd x \<noteq> n) b),
      bus_PublishAsync = (\<lambda>ev b. (b, map snd (filter (\<lambda>x. fst x = EventID ev) b)))\<rparr>"

abbreviation set_bus_subscribed :: "(string \<times> nat) list \<Rightarrow> string \<Rightarrow> nat set" where
  "set_bus_subscribed b k \<equiv> {n. (k, n) \<in> set b}"

lemma set_bus_law: "bus_law set_bus set_bus_subscribed"
  by (auto simp: bus_law_def set_bus_def image_iff)

lemma sample_holds:
  "\<exists>p q m evs. sample_exec [ASpawn, ASpawned, AGet 0] sample_pool = Some p \<and> \<not> crashed p \<and> published p = [] \<and>
     at_wait p = NotCalled \<and>
     gos p = [HasItem sample_item] \<and>
     process_item sample_api (ingester_Handle sample_api) (\<lambda>_ _. Inr None) list_workqueue (wheap p)
       (wp_informers (wpool p)) (wp_queue (wpool p)) (wp_metrics (wpool p)) sample_item = Ok (q, m, evs) \<and>
     map EventType evs = [DELETE]"
  by (simp add: sample_pool_simps)

subsection \<open>Properties\<close>

text \<open>
  C19: Events are not lost while the program runs, but they are at its end, for any bus that keeps the
  law. While storage is subscribed, every step hands its handler exactly the events that the step
  publishes, in order. Once storage's goroutine has returned, whatever is published in any further run
  is handed to nobody. And this hits every item that a worker holds while storage is still
  subscribed: there is a continuation in which the context ends, storage unsubscribes, and the worker
  publishes the events of its item without the handler being started on any of them.
\<close>

theorem subscribed_storage_hears:
  assumes "bus_law bus subscribed"
    and "reach (bs_init subscribed p b) (bs_step api handle store wq bus) s"
  shows "(bs_storage s = [SubAwaitStop, SubUnsubscribe] \<longrightarrow>
      (\<forall>t. bs_step api handle store wq bus s t \<longrightarrow>
         published (bs_pool t) = published (bs_pool s) @ new_events (bs_pool s) (bs_pool t) \<and>
         handled t = handled s @ new_events (bs_pool s) (bs_pool t))) \<and>
    (bs_storage s = [] \<longrightarrow> (\<forall>t. (bs_step api handle store wq bus)\<^sup>*\<^sup>* s t \<longrightarrow> handled t = handled s)) \<and>
    (\<forall>i item q m evs. bs_storage s = [SubAwaitStop, SubUnsubscribe] \<longrightarrow> \<not> crashed (bs_pool s) \<longrightarrow>
       i < length (gos (bs_pool s)) \<longrightarrow> gos (bs_pool s) ! i = HasItem item \<longrightarrow>
       process_item api handle store wq (wheap (bs_pool s)) (wp_informers (wpool (bs_pool s)))
         (wp_queue (wpool (bs_pool s))) (wp_metrics (wpool (bs_pool s))) item = Ok (q, m, evs) \<longrightarrow>
       (\<exists>t. (bs_step api handle store wq bus)\<^sup>*\<^sup>* s t \<and>
          published (bs_pool t) = published (bs_pool s) @ evs \<and> handled t = handled s))"
proof -
  have inv: "bs_inv subscribed s" by (rule bs_reach_inv [OF assms])
  have "published (bs_pool t) = published (bs_pool s) @ new_events (bs_pool s) (bs_pool t)"
    if "bs_step api handle store wq bus s t" for t
    using that
  proof cases
    case (bs_work p)
    then show ?thesis
      using wp_step_published [OF bs_work(2)] publish_new_eq(1) [OF assms(1), of p s] by (auto simp: new_events_def)
  qed (auto simp: new_events_def dest: wp_env_published)
  moreover have "handled t = handled s @ new_events (bs_pool s) (bs_pool t)"
    if "bs_storage s = [SubAwaitStop, SubUnsubscribe]" "bs_step api handle store wq bus s t" for t
    using bs_step_handled [OF assms(1) inv that(2)] subscribed_iff(1) [OF inv that(1)] by simp
  ultimately show ?thesis
    using deaf_forever [OF assms(1) _ inv, of api handle store wq]
      late_publication [OF assms(1) inv, of _ _ api handle store wq] by blast
qed

theorem subscribed_storage_hears_witness:
  "\<exists>s t ev. reach (bs_init set_bus_subscribed sample_pool [])
       (bs_step sample_api (ingester_Handle sample_api) (\<lambda>_ _. Inr None) list_workqueue set_bus) s \<and>
     bs_storage s = [SubAwaitStop, SubUnsubscribe] \<and>
     (bs_step sample_api (ingester_Handle sample_api) (\<lambda>_ _. Inr None) list_workqueue set_bus)\<^sup>*\<^sup>* s t \<and>
     published (bs_pool t) = [ev] \<and> EventType ev = DELETE \<and> handled t = []"
proof -
  let ?step = "bs_step sample_api (ingester_Handle sample_api) (\<lambda>_ _. Inr None) list_workqueue set_bus"
  let ?R = "reach (bs_init set_bus_subscribed sample_pool []) ?step"
  let ?s0 = "\<lparr>bs_pool = sample_pool, bs_bus = [], bs_storage = storage_Run, handled = []\<rparr>"
  let ?s1 = "\<lambda>p. \<lparr>bs_pool = p, bs_bus = [(''informerevent'', 0)],
    bs_storage = [SubAwaitStop, SubUnsubscribe], handled = []\<rparr>"
  obtain p q m evs where p: "sample_exec [ASpawn, ASpawned, AGet 0] sample_pool = Some p" "\<not> crashed p"
      "published p = []" "gos p = [HasItem sample_item]"
      "process_item sample_api (ingester_Handle sample_api) (\<lambda>_ _. Inr None) list_workqueue (wheap p)
         (wp_informers (wpool p)) (wp_queue (wpool p)) (wp_metrics (wpool p)) sample_item = Ok (q, m, evs)"
      "map EventType evs = [DELETE]"
    using sample_holds by (elim exE conjE) (rule that)
  have "?R ?s0" by (rule reach_init) (simp add: bs_init_def)
  moreover have "?step ?s0 (?s1 sample_pool)"
    using bs_subscribe [of ?s0 "''informerevent''" "[SubAwaitStop, SubUnsubscribe]" sample_api
        "ingester_Handle sample_api" "\<lambda>_ _. Inr None" list_workqueue set_bus]
    by (simp add: storage_Run_def set_bus_def)
  ultimately have "?R (?s1 sample_pool)" by (rule reach_step)
  from bs_schedule [OF this, of "[ASpawn, ASpawned, AGet 0]" p]
  have R: "?R (?s1 p)" using p(1,3) by (simp add: sample_exec_def sample_pool_def wp_init_def del: wp_exec_all.simps)
  from subscribed_storage_hears [OF set_bus_law R] p
  obtain t where "?step\<^sup>*\<^sup>* (?s1 p) t" "published (bs_pool t) = evs" "handled t = []"
    by fastforce
  moreover obtain ev where "evs = [ev]" "EventType ev = DELETE" using p(6) by auto
  ultimately show ?thesis using R by (intro exI [of _ "?s1 p"] exI [of _ t] exI [of _ ev]) simp
qed

end
