(* ===== verification/ListQueue.thy ===== *)
theory ListQueue
  imports ChanQueue
begin

text \<open>
  \<^verbatim>\<open>internal/queue/list_queue.go\<close>: the queue over a linked list, as a step relation over the same workers
  as the channel queue; it interprets the same contract. A list element is known by a number of its
  own, as the dispatcher keeps a pointer to the front element and removes it only after the job was
  handed over. Each locked section is one step. \<^verbatim>\<open>queue.go\<close>, the package's own queue, is at the end.
\<close>

subsection \<open>State\<close>

datatype 'j ldpc =
    LIdle
  | LLoop               \<comment> \<open>before the read-locked section\<close>
  | LGot nat 'j         \<comment> \<open>has the front element, before \<^verbatim>\<open><-q.workerPool\<close>\<close>
  | LSend nat 'j nat    \<comment> \<open>has a worker, before \<^verbatim>\<open>worker <- ele.Value\<close>\<close>
  | LRemove nat         \<comment> \<open>before \<^verbatim>\<open>list.Remove\<close>\<close>
  | LStuck nat 'j       \<comment> \<open>received a nil channel from the closed pool\<close>
  | LExit

datatype 'j lppc =
    LPChecked 'j        \<comment> \<open>past the running check\<close>
  | LPRoom 'j           \<comment> \<open>past the length check\<close>
  | LPAdded 'j          \<comment> \<open>past \<^verbatim>\<open>wg.Add(1)\<close>\<close>

record ('j, 'e) lqueue =
  lenv :: 'e
  lwps :: "'j wpool"
  lrunning :: "32 word"
  maxLen :: int
  llist :: "(nat \<times> 'j) list"
  nextele :: nat
  ldisp :: "'j ldpc"
  lpushers :: "'j lppc list"
  lterm :: tpc
  laccepted :: "'j list"

definition NewListQueueWithMaxLen :: "nat \<Rightarrow> int \<Rightarrow> 'e \<Rightarrow> ('j, 'e) lqueue" where
  "NewListQueueWithMaxLen maxThread mx e =
     \<lparr>lenv = e,
      lwps = \<lparr>pool_ch = make_chan maxThread, wpcs = replicate maxThread WExit,
              quits = replicate maxThread False, jobclosed = replicate maxThread False,
              wg = 0, executed = [], panicked = False\<rparr>,
      lrunning = 0, maxLen = mx, llist = [], nextele = 0, ldisp = LIdle, lpushers = [],
      lterm = TNone, laccepted = []\<rparr>"

definition NewListQueue :: "nat \<Rightarrow> 'e \<Rightarrow> ('j, 'e) lqueue" where
  "NewListQueue maxThread e = NewListQueueWithMaxLen maxThread 0 e"

definition lq_Run :: "('j, 'e) lqueue \<Rightarrow> ('j, 'e) lqueue outcome option" where
  "lq_Run q =
     (if lrunning q = 1 then Some (Ok q)
      else (let q = q\<lparr>lrunning := 1\<rparr> in
            case start_workers [0..<length (wpcs (lwps q))] (lwps q) of
              None \<Rightarrow> None
            | Some (Ok w) \<Rightarrow> Some (Ok (q\<lparr>lwps := w, ldisp := LLoop\<rparr>))
            | Some (Err e) \<Rightarrow> Some (Err e)
            | Some (Panic p) \<Rightarrow> Some (Panic p)))"

subsection \<open>Steps\<close>

text \<open>An empty list makes the dispatcher sleep and look again, which changes nothing.\<close>

definition lq_panic :: "('j, 'e) lqueue \<Rightarrow> ('j, 'e) lqueue" where
  "lq_panic q = q\<lparr>lwps := (lwps q)\<lparr>panicked := True\<rparr>\<rparr>"

inductive lq_rule ::
  "('j \<Rightarrow> 'e \<Rightarrow> 'e option) \<Rightarrow> ('j, 'e) lqueue \<Rightarrow> ('j, 'e) lqueue \<Rightarrow> bool"
  for run :: "'j \<Rightarrow> 'e \<Rightarrow> 'e option"
where
  lq_worker: "worker_step run (lenv q, lwps q) (e', w') \<Longrightarrow>
    lq_rule run q (q\<lparr>lenv := e', lwps := w'\<rparr>)"
| lq_push_check: "lrunning q = 1 \<Longrightarrow>
    lq_rule run q (q\<lparr>lpushers := lpushers q @ [LPChecked j]\<rparr>)"
| lq_push_full: "lpushers q = xs @ LPChecked j # ys \<Longrightarrow>
    maxLen q > 0 \<Longrightarrow> int (length (llist q)) > maxLen q \<Longrightarrow>
    lq_rule run q (q\<lparr>lpushers := xs @ ys\<rparr>)"
| lq_push_room: "lpushers q = xs @ LPChecked j # ys \<Longrightarrow>
    \<not> (maxLen q > 0 \<and> int (length (llist q)) > maxLen q) \<Longrightarrow>
    lq_rule run q (q\<lparr>lpushers := xs @ LPRoom j # ys\<rparr>)"
| lq_push_add: "lpushers q = xs @ LPRoom j # ys \<Longrightarrow>
    lq_rule run q (q\<lparr>lpushers := xs @ LPAdded j # ys, lwps := (lwps q)\<lparr>wg := wg (lwps q) + 1\<rparr>,
                     laccepted := laccepted q @ [j]\<rparr>)"
| lq_push_back: "lpushers q = xs @ LPAdded j # ys \<Longrightarrow>
    lq_rule run q (q\<lparr>lpushers := xs @ ys, llist := llist q @ [(nextele q, j)],
                     nextele := Suc (nextele q)\<rparr>)"
| lq_disp_break: "ldisp q = LLoop \<Longrightarrow> lrunning q \<noteq> 1 \<Longrightarrow> llist q = [] \<Longrightarrow>
    lq_rule run q (q\<lparr>ldisp := LExit\<rparr>)"
| lq_disp_front: "ldisp q = LLoop \<Longrightarrow> llist q = (k, j) # rest \<Longrightarrow>
    lq_rule run q (q\<lparr>ldisp := LGot k j\<rparr>)"
| lq_disp_worker: "ldisp q = LGot k j \<Longrightarrow> chan_recv (pool_ch (lwps q)) = Received i c \<Longrightarrow>
    lq_rule run q (q\<lparr>ldisp := LSend k j i, lwps := (lwps q)\<lparr>pool_ch := c\<rparr>\<rparr>)"
| lq_disp_nil: "ldisp q = LGot k j \<Longrightarrow> chan_recv (pool_ch (lwps q)) = RecvZero \<Longrightarrow>
    lq_rule run q (q\<lparr>ldisp := LStuck k j\<rparr>)"
| lq_disp_send: "ldisp q = LSend k j i \<Longrightarrow> can_receive (lwps q) i \<Longrightarrow>
    lq_rule run q (q\<lparr>ldisp := LRemove k, lwps := handover (lwps q) i j\<rparr>)"
| lq_disp_panic: "ldisp q = LSend k j i \<Longrightarrow> i < length (jobclosed (lwps q)) \<Longrightarrow>
    jobclosed (lwps q) ! i \<Longrightarrow> lq_rule run q (lq_panic q)"
| lq_disp_remove: "ldisp q = LRemove k \<Longrightarrow>
    lq_rule run q (q\<lparr>ldisp := LLoop, llist := filter (\<lambda>(k', j). k' \<noteq> k) (llist q)\<rparr>)"
| lq_term_begin: "lterm q = TNone \<Longrightarrow> lrunning q = 1 \<Longrightarrow>
    lq_rule run q (q\<lparr>lrunning := 0, lterm := TWait\<rparr>)"
| lq_term_waited: "lterm q = TWait \<Longrightarrow> wg (lwps q) = 0 \<Longrightarrow>
    lq_rule run q (q\<lparr>lterm := TStop 0\<rparr>)"
| lq_term_stop: "lterm q = TStop i \<Longrightarrow> i < length (wpcs (lwps q)) \<Longrightarrow>
    lq_rule run q (q\<lparr>lwps := worker_Stop (lwps q) i, lterm := TStop (Suc i)\<rparr>)"
| lq_term_stopped: "lterm q = TStop i \<Longrightarrow> i = length (wpcs (lwps q)) \<Longrightarrow>
    lq_rule run q (q\<lparr>lterm := TClosePool\<rparr>)"
| lq_term_close_pool: "lterm q = TClosePool \<Longrightarrow> chan_close (pool_ch (lwps q)) = Ok c \<Longrightarrow>
    lq_rule run q (q\<lparr>lwps := (lwps q)\<lparr>pool_ch := c\<rparr>, lterm := TDone\<rparr>)"

definition lq_step ::
  "('j \<Rightarrow> 'e \<Rightarrow> 'e option) \<Rightarrow> ('j, 'e) lqueue \<Rightarrow> ('j, 'e) lqueue \<Rightarrow> bool" where
  "lq_step run q q' \<longleftrightarrow> \<not> panicked (lwps q) \<and> lq_rule run q q'"

definition lq_init :: "nat \<Rightarrow> int \<Rightarrow> 'e \<Rightarrow> ('j, 'e) lqueue \<Rightarrow> bool" where
  "lq_init maxThread mx e q \<longleftrightarrow> lq_Run (NewListQueueWithMaxLen maxThread mx e) = Some (Ok q)"

text \<open>Runs with at most \<open>P\<close> goroutines inside \<^verbatim>\<open>Push\<close> at a time.\<close>

definition lq_producers_step ::
  "nat \<Rightarrow> ('j \<Rightarrow> 'e \<Rightarrow> 'e option) \<Rightarrow> ('j, 'e) lqueue \<Rightarrow> ('j, 'e) lqueue \<Rightarrow> bool" where
  "lq_producers_step P run q q' \<longleftrightarrow> lq_step run q q' \<and> length (lpushers q') \<le> P"

subsection \<open>The package's own queue\<close>

text \<open>
  The variable \<^verbatim>\<open>internalQueue\<close> of \<^verbatim>\<open>queue.go\<close>, nil or one of the two queues; \<open>pushQ\<close> and \<open>termQ\<close> stand for
  the calls of the interface's methods.
\<close>

datatype ('j, 'e) Queuer = AQueue "('j, 'e) cqueue" | AListQueue "('j, 'e) lqueue"

fun Queuer_Run :: "('j, 'e) Queuer \<Rightarrow> ('j, 'e) Queuer outcome option" where
  "Queuer_Run (AQueue q) = map_option (\<lambda>r. bind_outcome r (\<lambda>q. Ok (AQueue q))) (cq_Run q)"
| "Queuer_Run (AListQueue q) = map_option (\<lambda>r. bind_outcome r (\<lambda>q. Ok (AListQueue q))) (lq_Run q)"

definition package_Run ::
  "nat \<Rightarrow> nat \<Rightarrow> 'e \<Rightarrow> ('j, 'e) Queuer option \<Rightarrow> ('j, 'e) Queuer outcome option" where
  "package_Run maxCapacity maxThread e internalQueue =
     Queuer_Run (case internalQueue of None \<Rightarrow> AQueue (NewQueue maxCapacity maxThread e) | Some q \<Rightarrow> q)"

definition package_RunListQueue ::
  "nat \<Rightarrow> 'e \<Rightarrow> ('j, 'e) Queuer option \<Rightarrow> ('j, 'e) Queuer outcome option" where
  "package_RunListQueue maxThread e internalQueue =
     Queuer_Run (case internalQueue of None \<Rightarrow> AListQueue (NewListQueue maxThread e) | Some q \<Rightarrow> q)"

definition package_Push ::
  "('q \<Rightarrow> 'j \<Rightarrow> 'q) \<Rightarrow> 'j \<Rightarrow> 'q option \<Rightarrow> 'q option" where
  "package_Push pushQ j internalQueue = map_option (\<lambda>q. pushQ q j) internalQueue"

definition package_Terminate :: "('q \<Rightarrow> 'q) \<Rightarrow> 'q option \<Rightarrow> 'q option" where
  "package_Terminate termQ internalQueue = map_option termQ internalQueue"

subsection \<open>Accounting\<close>

fun lppc_jobs :: "'j lppc \<Rightarrow> 'j list" where
  "lppc_jobs (LPAdded j) = [j]"
| "lppc_jobs _ = []"

text \<open>The elements not yet handed over: all but the one about to be removed.\<close>

fun pending :: "'j ldpc \<Rightarrow> (nat \<times> 'j) list \<Rightarrow> (nat \<times> 'j) list" where
  "pending (LRemove k) l = filter (\<lambda>(k', j). k' \<noteq> k) l"
| "pending _ l = l"

fun holds_front :: "'j ldpc \<Rightarrow> (nat \<times> 'j) list \<Rightarrow> bool" where
  "holds_front (LGot k j) l = ((k, j) \<in> set l)"
| "holds_front (LSend k j i) l = ((k, j) \<in> set l)"
| "holds_front (LStuck k j) l = ((k, j) \<in> set l)"
| "holds_front _ l = True"

fun removes_old :: "'j ldpc \<Rightarrow> nat \<Rightarrow> bool" where
  "removes_old (LRemove k) n = (k < n)"
| "removes_old _ n = True"

definition lwaiting :: "('j, 'e) lqueue \<Rightarrow> 'j multiset" where
  "lwaiting q = mset (concat (map lppc_jobs (lpushers q))) + mset (map snd (pending (ldisp q) (llist q)))"

definition lq_in_flight :: "('j, 'e) lqueue \<Rightarrow> 'j multiset" where
  "lq_in_flight q = lwaiting q + mset (concat (map wpc_jobs (wpcs (lwps q))))"

definition lq_acct :: "nat \<Rightarrow> ('j, 'e) lqueue \<Rightarrow> bool" where
  "lq_acct n q \<longleftrightarrow>
     slack (lwps q) = int (size (lwaiting q)) \<and>
     mset (laccepted q) = wjobs (lwps q) + lwaiting q \<and> sized n (lwps q) \<and>
     distinct (map fst (llist q)) \<and> (\<forall>k \<in> fst ` set (llist q). k < nextele q) \<and>
     removes_old (ldisp q) (nextele q) \<and>
     holds_front (ldisp q) (llist q)"

lemmas lq_acct_simps = lq_acct_def lwaiting_def

subsection \<open>Lemmas\<close>

lemma lq_init_eq:
  "lq_init n mx e q \<longleftrightarrow>
     q = (NewListQueueWithMaxLen n mx e)\<lparr>lrunning := 1, ldisp := LLoop,
       lwps := \<lparr>pool_ch = \<lparr>ch_buf = [0..<n], ch_cap = n, ch_closed = False\<rparr>,
               wpcs = replicate n WSelect, quits = replicate n False,
               jobclosed = replicate n False, wg = 0, executed = [], panicked = False\<rparr>\<rparr>"
  by (auto simp: lq_init_def lq_Run_def NewListQueueWithMaxLen_def Let_def start_workers_fresh)

lemma lq_acct_init: "lq_init n mx e q \<Longrightarrow> lq_acct n q"
  by (simp add: lq_init_eq lq_acct_simps NewListQueueWithMaxLen_def wpool_defs sum_list_replicate
      idle_jobs)

text \<open>Handing an element over takes exactly its job out of the pending ones.\<close>

lemma pending_remove:
  assumes "distinct (map fst l)" and "(k, j) \<in> set l"
  shows "mset (map snd l) = add_mset j (mset (map snd (filter (\<lambda>(k', j). k' \<noteq> k) l)))"
proof -
  from assms(2) obtain xs ys where l: "l = xs @ (k, j) # ys" by (auto simp: in_set_conv_decomp)
  with assms(1) have "k \<notin> fst ` set xs" "k \<notin> fst ` set ys" by auto
  then have "filter (\<lambda>(k', j). k' \<noteq> k) zs = zs" if "zs = xs \<or> zs = ys" for zs
    using that by (auto simp: filter_id_conv image_iff)
  then show ?thesis by (simp add: l)
qed

lemma distinct_fst_filter: "distinct (map fst l) \<Longrightarrow> distinct (map fst (filter P l))"
  by (induction l) auto

lemma lq_acct_rule:
  assumes "lq_rule run q q'" and "lq_acct n q"
  shows "lq_acct n q'"
  using assms(1)
proof cases
  case (lq_worker e' w')
  then show ?thesis
    using assms(2) worker_step_slack [OF lq_worker(2)] worker_step_wjobs [OF lq_worker(2)]
      worker_step_sized [OF lq_worker(2)]
    by (simp add: lq_acct_simps)
next
  case (lq_push_back xs j ys)
  then show ?thesis using assms(2)
    by (cases "ldisp q") (auto simp: lq_acct_simps less_Suc_eq)
next
  case (lq_disp_send k j i)
  then have "mset (map snd (llist q)) =
      add_mset j (mset (map snd (filter (\<lambda>(k', j). k' \<noteq> k) (llist q))))"
    using assms(2) by (intro pending_remove) (simp_all add: lq_acct_def)
  moreover have "k < nextele q" using lq_disp_send assms(2) by (force simp: lq_acct_def)
  ultimately show ?thesis using lq_disp_send assms(2) by (auto simp: lq_acct_simps inv_simps)
next
  case (lq_disp_remove k)
  then show ?thesis using assms(2) by (auto simp: lq_acct_simps distinct_fst_filter)
qed (use assms(2) in \<open>auto simp: lq_acct_simps wpool_defs lq_panic_def worker_Stop_def chan_close_def
      split: if_splits\<close>)

interpretation lq: job_queue "lq_init n mx e" "lq_step run" "lq_acct n" laccepted
    "\<lambda>q. executed (lwps q)" lq_in_flight "\<lambda>q. wg (lwps q)"
  for n mx e run
proof (unfold_locales, goal_cases)
  case (1 q)
  then show ?case by (rule lq_acct_init)
next
  case (2 q q')
  then show ?case by (auto simp: lq_step_def intro: lq_acct_rule)
next
  case (3 q)
  then show ?case by (simp add: lq_acct_def lq_in_flight_def wjobs_def)
next
  case (4 q)
  then show ?case using jobs_le_busy [of "wpcs (lwps q)"]
    by (simp add: lq_acct_def lq_in_flight_def slack_def busy_def)
qed

text \<open>With few producers the list cannot grow far beyond its limit.\<close>

fun lppc_past :: "'j lppc \<Rightarrow> nat" where
  "lppc_past (LPChecked j) = 0"
| "lppc_past _ = 1"

definition lq_len_inv :: "nat \<Rightarrow> int \<Rightarrow> ('j, 'e) lqueue \<Rightarrow> bool" where
  "lq_len_inv P mx q \<longleftrightarrow>
     maxLen q = mx \<and> length (lpushers q) \<le> P \<and>
     int (length (llist q)) + int (sum_list (map lppc_past (lpushers q))) \<le> mx + int P"

lemma past_le: "sum_list (map lppc_past ps) \<le> length ps"
proof (induction ps)
  case Nil
  then show ?case by simp
next
  case (Cons p ps)
  then show ?case by (cases p) auto
qed

lemma lq_len_step:
  assumes "0 < mx" and inv: "lq_len_inv P mx q" and "lq_producers_step P run q q'"
  shows "lq_len_inv P mx q'"
proof -
  have "lq_rule run q q'" and len: "length (lpushers q') \<le> P"
    using assms(3) by (simp_all add: lq_producers_step_def lq_step_def)
  then show ?thesis
  proof cases
    case (lq_push_room xs j ys)
    then show ?thesis using inv len assms(1) past_le [of xs] past_le [of ys]
      by (auto simp: lq_len_inv_def)
  next
    case (lq_disp_remove k)
    then show ?thesis using inv length_filter_le [of "\<lambda>(k', j). k' \<noteq> k" "llist q"]
      by (simp add: lq_len_inv_def del: length_filter_le)
  qed (use inv len in \<open>auto simp: lq_len_inv_def lq_panic_def\<close>)
qed

lemma lq_len_reach:
  assumes "0 < mx" and "reach (lq_init n mx e) (lq_producers_step P run) q"
  shows "lq_len_inv P mx q"
  using assms(2)
proof (induction rule: reach.induct)
  case (reach_init q)
  then show ?case using assms(1)
    by (simp add: lq_init_eq lq_len_inv_def NewListQueueWithMaxLen_def)
next
  case (reach_step q q')
  then show ?case using lq_len_step [OF assms(1)] by blast
qed

text \<open>One complete \<^verbatim>\<open>Push\<close> with nothing else running.\<close>

lemma lq_push_one:
  assumes "reach I (lq_producers_step 1 run) q" and "lrunning q = 1" "lpushers q = []"
    "\<not> panicked (lwps q)" "int (length (llist q)) \<le> maxLen q"
  shows "\<exists>q'. reach I (lq_producers_step 1 run) q' \<and> lrunning q' = 1 \<and> lpushers q' = [] \<and>
    \<not> panicked (lwps q') \<and> maxLen q' = maxLen q \<and> length (llist q') = Suc (length (llist q)) \<and>
    laccepted q' = laccepted q @ [j]"
proof -
  define q1 where "q1 = q\<lparr>lpushers := [LPChecked j]\<rparr>"
  define q2 where "q2 = q1\<lparr>lpushers := [LPRoom j]\<rparr>"
  define q3 where "q3 = q2\<lparr>lpushers := [LPAdded j], lwps := (lwps q2)\<lparr>wg := wg (lwps q2) + 1\<rparr>,
    laccepted := laccepted q2 @ [j]\<rparr>"
  define q4 where "q4 = q3\<lparr>lpushers := [], llist := llist q3 @ [(nextele q3, j)],
    nextele := Suc (nextele q3)\<rparr>"
  have "lq_rule run q q1" using assms lq_push_check [of q run j] by (simp add: q1_def)
  moreover have "lq_rule run q1 q2"
    using assms lq_push_room [of q1 "[]" j "[]" run] by (simp add: q1_def q2_def)
  moreover have "lq_rule run q2 q3" using lq_push_add [of q2 "[]" j "[]" run] by (simp add: q2_def q3_def)
  moreover have "lq_rule run q3 q4" using lq_push_back [of q3 "[]" j "[]" run] by (simp add: q3_def q4_def)
  moreover note qs = q1_def q2_def q3_def q4_def
  ultimately have s: "lq_producers_step 1 run q q1" "lq_producers_step 1 run q1 q2"
    "lq_producers_step 1 run q2 q3" "lq_producers_step 1 run q3 q4"
    using assms(4) by (simp_all add: lq_producers_step_def lq_step_def qs)
  have "reach I (lq_producers_step 1 run) q1" using assms(1) s(1) by (rule reach_step)
  then have "reach I (lq_producers_step 1 run) q2" using s(2) by (rule reach_step)
  then have "reach I (lq_producers_step 1 run) q3" using s(3) by (rule reach_step)
  then have "reach I (lq_producers_step 1 run) q4" using s(4) by (rule reach_step)
  then show ?thesis using assms by (intro exI [of _ q4]) (simp add: qs)
qed

lemma lq_fill:
  fixes run :: "'j \<Rightarrow> 'e \<Rightarrow> 'e option"
  assumes "0 < mx" and "k \<le> nat mx + 1"
  shows "\<exists>q. reach (lq_init n mx e) (lq_producers_step 1 run) q \<and> lrunning q = 1 \<and> lpushers q = [] \<and>
    \<not> panicked (lwps q) \<and> maxLen q = mx \<and> length (llist q) = k"
  using assms(2)
proof (induction k)
  case 0
  obtain q :: "('j, 'e) lqueue" where "lq_init n mx e q" by (simp add: lq_init_eq)
  then show ?case
    by (intro exI [of _ q] conjI reach_init) (simp_all add: lq_init_eq NewListQueueWithMaxLen_def)
next
  case (Suc k)
  then obtain q where q: "reach (lq_init n mx e) (lq_producers_step 1 run) q" "lrunning q = 1"
    "lpushers q = []" "\<not> panicked (lwps q)" "maxLen q = mx" "length (llist q) = k" by auto
  moreover have "int (length (llist q)) \<le> maxLen q" using q(5,6) Suc.prems assms(1) by linarith
  ultimately show ?case using lq_push_one by fastforce
qed

subsection \<open>Properties\<close>

text \<open>
  The list queue keeps the same contract as the channel queue: every accepted job runs at most
  once in every interleaving, although an element stays in the list until after its job was handed
  over, and exactly once when the wait group is at zero.
\<close>

theorem list_queue_exactly_once:
  assumes "reach (lq_init n mx e) (lq_step run) q"
  shows "mset (executed (lwps q)) \<subseteq># mset (laccepted q) \<and> 0 \<le> wg (lwps q) \<and>
    (wg (lwps q) = 0 \<longrightarrow> mset (executed (lwps q)) = mset (laccepted q))"
  using lq.at_most_once [OF assms] lq.drained [OF assms] lq.count_nonneg [OF assms] by simp

theorem list_queue_exactly_once_witness:
  "\<exists>q :: (nat, nat) lqueue. reach (lq_init 2 5 0) (lq_step (\<lambda>j e. Some (e + j))) q \<and>
     laccepted q = [7] \<and> mset (executed (lwps q)) \<subseteq># {#7#}"
proof -
  let ?run = "\<lambda>(j::nat) e. Some (e + j)"
  obtain q :: "(nat, nat) lqueue" where q: "lq_init 2 5 0 q" by (simp add: lq_init_eq)
  then have "lrunning q = 1" "lpushers q = []" "\<not> panicked (lwps q)" "int (length (llist q)) \<le> maxLen q"
    "laccepted q = []" by (simp_all add: lq_init_eq NewListQueueWithMaxLen_def)
  with lq_push_one [OF reach_init [of "lq_init 2 5 0" q "lq_producers_step 1 ?run", OF q], of 7]
  obtain q' where q': "reach (lq_init 2 5 0) (lq_producers_step 1 ?run) q'" "laccepted q' = [7]" by auto
  have "reach (lq_init 2 5 0) (lq_step ?run) q'"
    by (rule reach_mono [OF _ q'(1)]) (simp add: lq_producers_step_def)
  with list_queue_exactly_once [OF this] q'(2) show ?thesis by auto
qed

text \<open>
  The length limit of the list queue is off by one: with a single producer the list never holds
  more than one element above the maximum given to \<^verbatim>\<open>NewListQueueWithMaxLen\<close>, and it does reach that
  length, since \<^verbatim>\<open>Push\<close> refuses a job only when the length is already above the maximum.
\<close>

theorem list_queue_length:
  assumes "0 < mx"
  shows "(\<forall>q. reach (lq_init n mx e) (lq_producers_step 1 run) q \<longrightarrow> int (length (llist q)) \<le> mx + 1) \<and>
    (\<exists>q. reach (lq_init n mx e) (lq_producers_step 1 run) q \<and> lpushers q = [] \<and>
       int (length (llist q)) = mx + 1)"
proof (intro conjI allI impI)
  fix q
  assume "reach (lq_init n mx e) (lq_producers_step 1 run) q"
  then have "lq_len_inv 1 mx q" by (rule lq_len_reach [OF assms])
  then show "int (length (llist q)) \<le> mx + 1" by (simp add: lq_len_inv_def)
next
  show "\<exists>q. reach (lq_init n mx e) (lq_producers_step 1 run) q \<and> lpushers q = [] \<and>
      int (length (llist q)) = mx + 1"
    using lq_fill [OF assms, of "nat mx + 1" n e run] assms by fastforce
qed

theorem list_queue_length_witness:
  "\<exists>q :: (nat, nat) lqueue. reach (lq_init 2 3 0) (lq_producers_step 1 (\<lambda>j e. Some e)) q \<and>
     length (llist q) = 4"
  using list_queue_length [of 3 2 "0::nat" "\<lambda>(j::nat) e. Some e"] by auto

end
