(* ===== verification/JobBag.thy ===== *)
theory JobBag
  imports ListQueue ChanQueueProps
begin

text \<open>
  An abstract specification of a \<^verbatim>\<open>Queuer\<close>, and the refinement of both queues to it. Abstractly a queue
  is a bag: a job may be added at any time, and at any time one job may be taken out and run, as one
  atomic step on the environment. Channels, dispatcher, workers, the wait group and shutdown are
  invisible.
\<close>

subsection \<open>The specification\<close>

record ('j, 'e) jobbag =
  bag_env :: 'e
  bag_pending :: "'j multiset"
  bag_done :: "'j list"

inductive bag_step :: "('j \<Rightarrow> 'e \<Rightarrow> 'e option) \<Rightarrow> ('j, 'e) jobbag \<Rightarrow> ('j, 'e) jobbag \<Rightarrow> bool"
  for run :: "'j \<Rightarrow> 'e \<Rightarrow> 'e option"
where
  bag_accept: "bag_step run b (b\<lparr>bag_pending := add_mset j (bag_pending b)\<rparr>)"
| bag_run: "bag_pending b = add_mset j M \<Longrightarrow> run j (bag_env b) = Some e \<Longrightarrow>
    bag_step run b (b\<lparr>bag_env := e, bag_pending := M, bag_done := bag_done b @ [j]\<rparr>)"

definition empty_bag :: "'e \<Rightarrow> ('j, 'e) jobbag" where
  "empty_bag e = \<lparr>bag_env = e, bag_pending = {#}, bag_done = []\<rparr>"

text \<open>Running jobs one after the other.\<close>

fun run_jobs :: "('j \<Rightarrow> 'e \<Rightarrow> 'e option) \<Rightarrow> 'j list \<Rightarrow> 'e \<Rightarrow> 'e option" where
  "run_jobs run [] e = Some e"
| "run_jobs run (j # js) e = Option.bind (run j e) (run_jobs run js)"

lemma run_jobs_snoc: "run_jobs run (js @ [j]) e = Option.bind (run_jobs run js e) (run j)"
  by (induction js arbitrary: e) (auto split: bind_splits)

text \<open>The environment of a bag is always the result of running the jobs done so far in sequence.\<close>

lemma bag_sequential:
  "(bag_step run)\<^sup>*\<^sup>* (empty_bag e) b \<Longrightarrow> run_jobs run (bag_done b) e = Some (bag_env b)"
proof (induction rule: rtranclp_induct)
  case base
  then show ?case by (simp add: empty_bag_def)
next
  case (step b c)
  from step(2) show ?case by cases (use step(3) in \<open>auto simp: run_jobs_snoc\<close>)
qed

subsection \<open>Refinement\<close>

text \<open>
  A queue refines the bag when each of its steps either accepts one job, or runs one job to its end, or
  touches none of the two histories and the environment.
\<close>

locale bag_queue = job_queue init step invar accepted ran in_flight count
  for init :: "'s \<Rightarrow> bool" and step :: "'s \<Rightarrow> 's \<Rightarrow> bool" and invar :: "'s \<Rightarrow> bool"
    and accepted :: "'s \<Rightarrow> 'j list" and ran :: "'s \<Rightarrow> 'j list"
    and in_flight :: "'s \<Rightarrow> 'j multiset" and count :: "'s \<Rightarrow> int" +
  fixes envof :: "'s \<Rightarrow> 'e" and run :: "'j \<Rightarrow> 'e \<Rightarrow> 'e option" and e0 :: 'e
  assumes starts: "init s \<Longrightarrow> accepted s = [] \<and> ran s = [] \<and> envof s = e0"
    and visible: "step s t \<Longrightarrow>
      (accepted t = accepted s \<and> ran t = ran s \<and> envof t = envof s) \<or>
      (\<exists>j. accepted t = accepted s @ [j] \<and> ran t = ran s \<and> envof t = envof s) \<or>
      (\<exists>j e. run j (envof s) = Some e \<and> accepted t = accepted s \<and> ran t = ran s @ [j] \<and> envof t = e)"
begin

definition bag_of :: "'s \<Rightarrow> ('j, 'e) jobbag" where
  "bag_of s = \<lparr>bag_env = envof s, bag_pending = in_flight s, bag_done = ran s\<rparr>"

lemma bag_of_init: "init s \<Longrightarrow> bag_of s = empty_bag e0"
  using starts [of s] conserve [OF invar_init, of s] by (simp add: bag_of_def empty_bag_def)

lemma simulates:
  assumes "invar s" and "step s t"
  shows "bag_of t = bag_of s \<or> bag_step run (bag_of s) (bag_of t)"
proof -
  have s: "mset (accepted s) = mset (ran s) + in_flight s"
    and t: "mset (accepted t) = mset (ran t) + in_flight t"
    using conserve assms invar_step by blast+
  from visible [OF assms(2)] show ?thesis
  proof (elim disjE exE conjE)
    assume "accepted t = accepted s" "ran t = ran s" "envof t = envof s"
    then show ?thesis using s t by (simp add: bag_of_def)
  next
    fix j
    assume a: "accepted t = accepted s @ [j]" "ran t = ran s" "envof t = envof s"
    then have "mset (ran s) + in_flight t = mset (ran s) + add_mset j (in_flight s)"
      using s t by simp
    then have "in_flight t = add_mset j (in_flight s)" by (simp only: add_left_cancel)
    then show ?thesis using a bag_accept [of run "bag_of s" j] by (simp add: bag_of_def)
  next
    fix j e
    assume a: "run j (envof s) = Some e" "accepted t = accepted s" "ran t = ran s @ [j]" "envof t = e"
    then have "mset (ran s) + in_flight s = mset (ran s) + add_mset j (in_flight t)" using s t by simp
    then have "in_flight s = add_mset j (in_flight t)" by (simp only: add_left_cancel)
    then show ?thesis using a bag_run [of "bag_of s" j "in_flight t" run e] by (simp add: bag_of_def)
  qed
qed

lemma refines: "reach init step s \<Longrightarrow> (bag_step run)\<^sup>*\<^sup>* (empty_bag e0) (bag_of s)"
proof (induction rule: reach.induct)
  case (reach_init s)
  then show ?case by (simp add: bag_of_init)
next
  case (reach_step s t)
  then show ?case using simulates [OF reach_invar, of s t] by (metis rtranclp.rtrancl_into_rtrancl)
qed

lemma sequential: "reach init step s \<Longrightarrow> run_jobs run (ran s) e0 = Some (envof s)"
  using bag_sequential [OF refines] by (simp add: bag_of_def)

end

subsection \<open>Both queues\<close>

lemma worker_step_visible:
  assumes "worker_step run (e, w) (e', w')"
  shows "(executed w' = executed w \<and> e' = e) \<or>
    (\<exists>j. run j e = Some e' \<and> executed w' = executed w @ [j])"
  using assms by cases auto

lemma cq_rule_visible:
  assumes "cq_rule run q q'"
  shows "(accepted q' = accepted q \<and> executed (wps q') = executed (wps q) \<and> env q' = env q) \<or>
    (\<exists>j. accepted q' = accepted q @ [j] \<and> executed (wps q') = executed (wps q) \<and> env q' = env q) \<or>
    (\<exists>j e. run j (env q) = Some e \<and> accepted q' = accepted q \<and>
       executed (wps q') = executed (wps q) @ [j] \<and> env q' = e)"
  using assms
proof cases
  case (cq_worker e' w')
  then show ?thesis using worker_step_visible [OF cq_worker(2)] by auto
qed (auto simp: cq_panic_def handover_def worker_Stop_def)

lemma lq_rule_visible:
  assumes "lq_rule run q q'"
  shows "(laccepted q' = laccepted q \<and> executed (lwps q') = executed (lwps q) \<and> lenv q' = lenv q) \<or>
    (\<exists>j. laccepted q' = laccepted q @ [j] \<and> executed (lwps q') = executed (lwps q) \<and> lenv q' = lenv q) \<or>
    (\<exists>j e. run j (lenv q) = Some e \<and> laccepted q' = laccepted q \<and>
       executed (lwps q') = executed (lwps q) @ [j] \<and> lenv q' = e)"
  using assms
proof cases
  case (lq_worker e' w')
  then show ?thesis using worker_step_visible [OF lq_worker(2)] by auto
qed (auto simp: lq_panic_def handover_def worker_Stop_def)

interpretation cqb: bag_queue "cq_init cap n e" "cq_step run" "cq_acct cap n" accepted
    "\<lambda>q. executed (wps q)" cq_in_flight "\<lambda>q. wg (wps q)" env run e
  for cap n e run
proof (unfold_locales, goal_cases)
  case (1 q)
  then show ?case by (simp add: cq_init_eq NewQueue_def)
next
  case (2 q q')
  then show ?case using cq_rule_visible by (auto simp: cq_step_def)
qed

interpretation lqb: bag_queue "lq_init n mx e" "lq_step run" "lq_acct n" laccepted
    "\<lambda>q. executed (lwps q)" lq_in_flight "\<lambda>q. wg (lwps q)" lenv run e
  for n mx e run
proof (unfold_locales, goal_cases)
  case (1 q)
  then show ?case by (simp add: lq_init_eq NewListQueueWithMaxLen_def)
next
  case (2 q q')
  then show ?case using lq_rule_visible by (auto simp: lq_step_def)
qed

subsection \<open>Properties\<close>

text \<open>The abstraction of each queue.\<close>

definition cq_bag :: "('j, 'e) cqueue \<Rightarrow> ('j, 'e) jobbag" where
  "cq_bag q = \<lparr>bag_env = env q, bag_pending = cq_in_flight q, bag_done = executed (wps q)\<rparr>"

definition lq_bag :: "('j, 'e) lqueue \<Rightarrow> ('j, 'e) jobbag" where
  "lq_bag q = \<lparr>bag_env = lenv q, bag_pending = lq_in_flight q, bag_done = executed (lwps q)\<rparr>"

lemma cq_bag_eq: "cqb.bag_of = cq_bag"
  by (rule ext) (simp add: cqb.bag_of_def cq_bag_def)

lemma lq_bag_eq: "lqb.bag_of = lq_bag"
  by (rule ext) (simp add: lqb.bag_of_def lq_bag_def)

text \<open>
  C5: The channel queue refines a bag of jobs. In every reachable state of every interleaving each
  further step is invisible, or adds one job to the bag, or takes one job out and runs it; so the
  state is one that the bag can be in; and the environment, here the record channel, is what running
  the executed jobs one after the other, in the order of the history, makes of the initial one, as if
  there were a single worker. The jobs done and those in the bag are exactly the accepted ones, and
  the bag is empty when the wait group is at zero, as \<^verbatim>\<open>Terminate\<close> waits for before it closes anything: no
  job runs twice, and then every accepted job has run.
\<close>

theorem chan_queue_refines_bag:
  assumes "reach (cq_init cap n e) (cq_step run) q"
  shows "(\<forall>q'. cq_step run q q' \<longrightarrow> cq_bag q' = cq_bag q \<or> bag_step run (cq_bag q) (cq_bag q')) \<and>
    (bag_step run)\<^sup>*\<^sup>* (empty_bag e) (cq_bag q) \<and> run_jobs run (executed (wps q)) e = Some (env q) \<and>
    mset (accepted q) = mset (bag_done (cq_bag q)) + bag_pending (cq_bag q) \<and>
    (wg (wps q) = 0 \<longrightarrow> bag_pending (cq_bag q) = {#})"
  using cqb.simulates [OF cq.reach_invar [OF assms]] cqb.refines [OF assms] cqb.sequential [OF assms]
    cq.conserve [OF cq.reach_invar [OF assms]] cq.drained [OF assms]
  by (simp add: cq_bag_eq) (simp add: cq_bag_def)

theorem chan_queue_refines_bag_witness:
  "\<exists>q. reach (cq_init 1000 4 []) (cq_step note_job) q \<and>
     (bag_step note_job)\<^sup>*\<^sup>* (empty_bag []) (cq_bag q) \<and> bag_done (cq_bag q) = [2, 1 :: nat]"
proof -
  obtain q where q: "cq_exec_all note_job (\<lambda>_. True) (two_jobs 1 2) (cq_start 1000 4 []) = Some q"
    "executed (wps q) = [2, 1 :: nat]"
    using two_jobs_run [of note_job 2 "[]" "[2::nat]" 1 "[2, 1]"] by (auto simp: note_job_def)
  with chan_queue_refines_bag [OF cq_schedule_reach [OF q(1)]] cq_schedule_reach [OF q(1)]
  show ?thesis by (auto simp: cq_bag_def)
qed

text \<open>
  C22: The list queue refines the same bag in the same sense, although an element stays in the list while
  its job is already with a worker.
\<close>

theorem list_queue_refines_bag:
  assumes "reach (lq_init n mx e) (lq_step run) q"
  shows "(\<forall>q'. lq_step run q q' \<longrightarrow> lq_bag q' = lq_bag q \<or> bag_step run (lq_bag q) (lq_bag q')) \<and>
    (bag_step run)\<^sup>*\<^sup>* (empty_bag e) (lq_bag q) \<and> run_jobs run (executed (lwps q)) e = Some (lenv q) \<and>
    mset (laccepted q) = mset (bag_done (lq_bag q)) + bag_pending (lq_bag q) \<and>
    (wg (lwps q) = 0 \<longrightarrow> bag_pending (lq_bag q) = {#})"
  using lqb.simulates [OF lq.reach_invar [OF assms]] lqb.refines [OF assms] lqb.sequential [OF assms]
    lq.conserve [OF lq.reach_invar [OF assms]] lq.drained [OF assms]
  by (simp add: lq_bag_eq) (simp add: lq_bag_def)

theorem list_queue_refines_bag_witness:
  "\<exists>q :: (nat, nat) lqueue. reach (lq_init 2 5 0) (lq_producers_step 1 (\<lambda>j e. Some (e + j))) q \<and>
     length (llist q) = 3 \<and> (bag_step (\<lambda>j e. Some (e + j)))\<^sup>*\<^sup>* (empty_bag 0) (lq_bag q)"
proof -
  let ?run = "\<lambda>(j::nat) e. Some (e + j)"
  obtain q where q: "reach (lq_init 2 5 0) (lq_producers_step 1 ?run) q" "length (llist q) = 3"
    using lq_fill [of 5 3 2 "0::nat" ?run] by auto
  have "reach (lq_init 2 5 0) (lq_step ?run) q"
    by (rule reach_mono [OF _ q(1)]) (simp add: lq_producers_step_def)
  with list_queue_refines_bag [OF this] q show ?thesis by blast
qed

end
