(* ===== verification/Upsert.thy ===== *)
theory Upsert
  imports Batch
begin

text \<open>
  What the statements of the batch worker do to the table. PostgreSQL is third-party: the theorems
  are about any \<^verbatim>\<open>Exec\<close> that keeps \<open>upsert_law\<close>, the documented meaning of a multi-row
  \<^verbatim>\<open>INSERT ... ON CONFLICT (global_uid) DO UPDATE SET deleted_at = EXCLUDED.deleted_at, raw = EXCLUDED.raw\<close>.
  A row is the list of its fifteen column values in the order of \<^verbatim>\<open>cols.sql\<close>; \<^verbatim>\<open>deleted_at\<close> is
  column 2, \<^verbatim>\<open>global_uid\<close> column 5 and \<^verbatim>\<open>raw\<close> column 13, counted from 0.
\<close>

subsection \<open>The table\<close>

type_synonym sqlrow = "sqlval list"
type_synonym sqltable = "sqlval \<rightharpoonup> sqlrow"

definition upsert_row :: "sqltable \<Rightarrow> sqlrow \<Rightarrow> sqltable" where
  "upsert_row t row =
     t(row ! 5 \<mapsto> (case t (row ! 5) of None \<Rightarrow> row | Some old \<Rightarrow> old[2 := row ! 2, 13 := row ! 13]))"

definition table_ok :: "sqltable \<Rightarrow> bool" where
  "table_ok t \<longleftrightarrow> (\<forall>k row. t k = Some row \<longrightarrow> length row = 15)"

text \<open>
  A statement whose rows have different keys inserts or updates row after row; one that fails changes
  nothing. \<open>tab\<close> reads the table off the database state.
\<close>

definition upsert_law ::
  "('db \<Rightarrow> sqltable) \<Rightarrow> ('db \<Rightarrow> string \<Rightarrow> sqlval list \<Rightarrow> 'db \<times> goerror option) \<Rightarrow> string list \<Rightarrow> bool" where
  "upsert_law tab exec cols \<longleftrightarrow>
     (\<forall>d rows. (\<forall>row \<in> set rows. length row = 15) \<longrightarrow> distinct (map (\<lambda>row. row ! 5) rows) \<longrightarrow>
        tab (fst (exec d (insert_sql cols (length rows)) (concat rows))) =
          (if snd (exec d (insert_sql cols (length rows)) (concat rows)) = None
           then foldl upsert_row (tab d) rows else tab d))"

text \<open>The reference: one upsert per record, in the order the records were taken off the channel.\<close>

definition upsert_each :: "sqltable \<Rightarrow> InsertRecord list \<Rightarrow> sqltable" where
  "upsert_each t rs = foldl upsert_row t (map row_values rs)"

text \<open>
  The specification of the store: for every global identifier the deletion time and the JSON that
  were written last.
\<close>

definition stored :: "sqltable \<Rightarrow> sqlval \<rightharpoonup> sqlval \<times> sqlval" where
  "stored t k = map_option (\<lambda>row. (row ! 2, row ! 13)) (t k)"

definition payload :: "InsertRecord \<Rightarrow> sqlval \<times> sqlval" where
  "payload r = (VTime (map_option time_UTC (DeletedAt r)), VBytes (Some (Raw r)))"

definition put :: "(sqlval \<rightharpoonup> sqlval \<times> sqlval) \<Rightarrow> InsertRecord \<Rightarrow> (sqlval \<rightharpoonup> sqlval \<times> sqlval)" where
  "put m r = m(VStr (GlobalUID r) \<mapsto> payload r)"

subsection \<open>Lemmas\<close>

lemma row_values_nth [simp]:
  "row_values r ! 2 = fst (payload r)" "row_values r ! 5 = VStr (GlobalUID r)"
  "row_values r ! 13 = snd (payload r)"
  by (simp_all add: row_values_def payload_def)

lemma table_ok_upsert: "table_ok t \<Longrightarrow> length row = 15 \<Longrightarrow> table_ok (upsert_row t row)"
  by (auto simp: table_ok_def upsert_row_def split: option.splits)

lemma table_ok_each: "table_ok t \<Longrightarrow> table_ok (upsert_each t rs)"
  unfolding upsert_each_def by (induction rs arbitrary: t) (auto simp: table_ok_upsert)

lemma stored_upsert: "table_ok t \<Longrightarrow> stored (upsert_row t (row_values r)) = put (stored t) r"
  by (auto simp: fun_eq_iff stored_def put_def upsert_row_def table_ok_def split: option.splits)

text \<open>An upsert of a record refines the assignment in the specification, and so does a sequence.\<close>

lemma stored_each: "table_ok t \<Longrightarrow> stored (upsert_each t rs) = foldl put (stored t) rs"
  unfolding upsert_each_def
  by (induction rs arbitrary: t) (simp_all add: stored_upsert table_ok_upsert)

lemma last_write_snoc:
  "last_write (rs @ [r]) u = (if u = GlobalUID r then Some r else last_write rs u)"
  by (auto simp: last_write_def)

lemma foldl_put:
  "foldl put m rs k =
     (case k of VStr u \<Rightarrow> (case last_write rs u of None \<Rightarrow> m k | Some r \<Rightarrow> Some (payload r)) | _ \<Rightarrow> m k)"
proof (induction rs rule: rev_induct)
  case Nil
  then show ?case by (simp add: last_write_def split: sqlval.split)
next
  case (snoc r rs)
  then show ?case by (auto simp: put_def last_write_snoc split: sqlval.split)
qed

lemma last_write_distinct:
  "distinct (map GlobalUID rs) \<Longrightarrow> r \<in> set rs \<Longrightarrow> last_write rs (GlobalUID r) = Some r"
  unfolding last_write_def by (rule map_of_is_SomeI) (auto simp: rev_map [symmetric] comp_def)

lemma last_write_batch_rows:
  assumes "any_order ord"
  shows "last_write (batch_rows ord rs) u = last_write rs u"
proof (cases "last_write rs u")
  case None
  then have "u \<notin> GlobalUID ` set (batch_rows ord rs)"
    using batch_rows_subset [OF assms, of rs] by (auto simp: last_write_None)
  then show ?thesis using None last_write_None by metis
next
  case (Some r)
  then have "r \<in> set (batch_rows ord rs)" "GlobalUID r = u"
    using last_write_Some [of rs u r] by (auto simp: batch_rows_set [OF assms])
  then show ?thesis
    using Some last_write_distinct [OF batch_rows_distinct [OF assms, of rs], of r] by simp
qed

text \<open>The deduplicated rows, in whatever order, put the same values as the buffer.\<close>

lemma put_batch_rows: "any_order ord \<Longrightarrow> foldl put m (batch_rows ord rs) = foldl put m rs"
  by (rule ext) (simp add: foldl_put last_write_batch_rows split: sqlval.split)

text \<open>A row that is in the table before keeps its other columns.\<close>

lemma upsert_each_old:
  assumes "t k = Some old" and "table_ok t"
  shows "upsert_each t rs k =
    Some (case foldl put (stored t) rs k of Some (da, raw) \<Rightarrow> old[2 := da, 13 := raw] | None \<Rightarrow> old)"
  using assms
proof (induction rs rule: rev_induct)
  case Nil
  then show ?case by (simp add: upsert_each_def stored_def)
next
  case (snoc r rs)
  have "upsert_each t (rs @ [r]) = upsert_row (upsert_each t rs) (row_values r)"
    by (simp add: upsert_each_def)
  with snoc show ?case
    by (auto simp: upsert_row_def put_def list_update_swap [of 13 2] split: option.splits prod.splits)
qed

lemma sync_table:
  assumes "any_order ord" "\<forall>r \<in> set (buffer w). timed r" "buffer w \<noteq> []"
    and "upsert_law tab exec (columns w)"
  shows "\<exists>d' m'. sync exec ord w d m = Ok (d', m') \<and>
    tab d' = (if snd (exec d (insert_sql (columns w) (length (batch_rows ord (buffer w))))
                (concat (map row_values (batch_rows ord (buffer w))))) = None
              then upsert_each (tab d) (batch_rows ord (buffer w)) else tab d)"
proof -
  let ?rows = "map row_values (batch_rows ord (buffer w))"
  have "(\<forall>row \<in> set ?rows. length row = 15)" "distinct (map (\<lambda>row. row ! 5) ?rows)"
    using batch_rows_distinct [OF assms(1), of "buffer w"]
    by (auto simp: comp_def distinct_map inj_on_def)
  with assms(4)[unfolded upsert_law_def, rule_format, of ?rows d]
  show ?thesis
    by (cases "exec d (insert_sql (columns w) (length ?rows)) (concat ?rows)")
       (simp add: sync_eq [OF assms(1-3)] upsert_each_def Let_def)
qed

text \<open>The row of an identifier that is new in the table, from its first record on.\<close>

lemma upsert_each_untouched:
  "u \<notin> GlobalUID ` set rs \<Longrightarrow> upsert_each t rs (VStr u) = t (VStr u)"
  unfolding upsert_each_def by (induction rs arbitrary: t) (auto simp: upsert_row_def)

lemma upsert_each_new:
  assumes "table_ok t" "t (VStr u) = None" "rs = xs @ r # ys" "GlobalUID r = u"
    and "u \<notin> GlobalUID ` set xs" and "last_write rs u = Some l"
  shows "upsert_each t rs (VStr u) = Some ((row_values r)[2 := fst (payload l), 13 := snd (payload l)])"
proof -
  let ?t = "upsert_each t (xs @ [r])"
  have at: "?t (VStr u) = Some (row_values r)"
    using assms(2,4,5) upsert_each_untouched [of u xs t]
    by (simp add: upsert_each_def upsert_row_def)
  have ok: "table_ok ?t" using assms(1) by (rule table_ok_each)
  have "upsert_each t rs = upsert_each ?t ys" by (simp add: assms(3) upsert_each_def)
  moreover have "foldl put (stored ?t) ys (VStr u) = Some (payload l)"
    using stored_each [OF assms(1), of "xs @ [r]"] foldl_put [of "stored t" rs "VStr u"] assms(3,6)
    by simp
  ultimately show ?thesis using upsert_each_old [OF at ok, of ys] by (simp split: prod.split)
qed

lemma row_values_self: "(row_values r)[2 := fst (payload r), 13 := snd (payload r)] = row_values r"
  by (metis list_update_id row_values_nth(1,3))

lemma batch_new_row:
  assumes "any_order ord" "table_ok t" "t (VStr u) = None" "last_write rs u = Some l"
  shows "upsert_each t (batch_rows ord rs) (VStr u) = Some (row_values l)"
proof -
  let ?rows = "batch_rows ord rs"
  have l: "last_write ?rows u = Some l" using assms(1,4) by (simp add: last_write_batch_rows)
  then have "l \<in> set ?rows" "GlobalUID l = u" using last_write_Some by auto
  then obtain xs ys where rows: "?rows = xs @ l # ys" by (metis split_list)
  have "u \<notin> GlobalUID ` set xs"
    using batch_rows_distinct [OF assms(1), of rs] \<open>GlobalUID l = u\<close> by (auto simp: rows)
  from upsert_each_new [OF assms(2,3) rows \<open>GlobalUID l = u\<close> this l]
  show ?thesis by (simp add: row_values_self)
qed

text \<open>
  A sequence of batches sent one after the other: the database afterwards, and the records of those
  batches whose statement succeeded.
\<close>

fun send_batches ::
  "('db \<Rightarrow> string \<Rightarrow> sqlval list \<Rightarrow> 'db \<times> goerror option) \<Rightarrow>
     (nat \<Rightarrow> (string, InsertRecord) gomap \<Rightarrow> (string, InsertRecord) gomap) \<Rightarrow> string list \<Rightarrow> nat \<Rightarrow> 'db \<Rightarrow>
     InsertRecord list list \<Rightarrow> 'db \<times> InsertRecord list" where
  "send_batches exec ord cols n d [] = (d, [])"
| "send_batches exec ord cols n d (b # bs) =
     (case exec d (fst (batch_call cols (ord n) b)) (snd (batch_call cols (ord n) b)) of
        (d', err) \<Rightarrow>
          (case send_batches exec ord cols (Suc n) d' bs of
             (d'', ws) \<Rightarrow> (d'', (if err = None then b else []) @ ws)))"

lemma send_batches_snoc:
  "send_batches exec ord cols n d (bs @ [b]) =
     (case send_batches exec ord cols n d bs of
        (d', ws) \<Rightarrow>
          (case exec d' (fst (batch_call cols (ord (n + length bs)) b))
                  (snd (batch_call cols (ord (n + length bs)) b)) of
             (d'', err) \<Rightarrow> (d'', ws @ (if err = None then b else []))))"
  by (induction bs arbitrary: n d) (auto split: prod.split)

lemma send_batches_succeed:
  "\<forall>d sql vals. snd (exec d sql vals) = None \<Longrightarrow> snd (send_batches exec ord cols n d bs) = concat bs"
proof (induction bs arbitrary: n d)
  case (Cons b bs)
  obtain d' where "exec d (fst (batch_call cols (ord n) b)) (snd (batch_call cols (ord n) b)) = (d', None)"
    using Cons.prems by (metis prod.collapse)
  moreover have "snd (send_batches exec ord cols (Suc n) d' bs) = concat bs" using Cons by blast
  ultimately show ?case by (simp split: prod.split) (metis snd_conv)
qed simp

text \<open>What the database will hold once the buffer has been written.\<close>

definition promised :: "('db \<Rightarrow> sqltable) \<Rightarrow> 'db batch_state \<Rightarrow> sqlval \<rightharpoonup> sqlval \<times> sqlval" where
  "promised tab s = foldl put (stored (tab (db s))) (buffer (worker s))"

text \<open>
  The worker after sending the batches \<open>bs\<close> to a database that was in state \<open>d0\<close>, with \<open>recs\<close> received.
\<close>

definition batch_sent ::
  "('db \<Rightarrow> sqltable) \<Rightarrow> ('db \<Rightarrow> string \<Rightarrow> sqlval list \<Rightarrow> 'db \<times> goerror option) \<Rightarrow>
     (nat \<Rightarrow> (string, InsertRecord) gomap \<Rightarrow> (string, InsertRecord) gomap) \<Rightarrow> string list \<Rightarrow> 'db \<Rightarrow>
     InsertRecord list \<Rightarrow> InsertRecord list list \<Rightarrow> 'db batch_state \<Rightarrow> bool" where
  "batch_sent tab exec ord cols d0 recs bs s \<longleftrightarrow>
     columns (worker s) = cols \<and> (\<forall>r \<in> set (buffer (worker s)). timed r) \<and> table_ok (tab (db s)) \<and>
     concat bs @ buffer (worker s) = recs \<and> flushes s = length bs \<and> fst (send_batches exec ord cols 0 d0 bs) = db s \<and>
     stored (tab (db s)) = foldl put (stored (tab d0)) (snd (send_batches exec ord cols 0 d0 bs))"

lemma flush_state_sent:
  assumes "\<forall>n. any_order (ord n)" "upsert_law tab exec cols" "batch_sent tab exec ord cols d0 recs bs s"
    and "buffer (worker s) \<noteq> []"
  shows "\<exists>s'. flush_state exec ord dur s = Ok s' \<and>
    batch_sent tab exec ord cols d0 recs (bs @ [buffer (worker s)]) s' \<and>
    stopped s' = stopped s \<and> buffer (worker s') = []"
proof -
  note sent = assms(3)[unfolded batch_sent_def]
  let ?b = "buffer (worker s)" and ?ord = "ord (flushes s)"
  have ord: "any_order ?ord" using assms(1) by blast
  obtain d err where d: "exec (db s) (fst (batch_call cols ?ord ?b)) (snd (batch_call cols ?ord ?b)) = (d, err)"
    by (cases "exec (db s) (fst (batch_call cols ?ord ?b)) (snd (batch_call cols ?ord ?b))")
  have cols: "columns (worker s) = cols" and tim: "\<forall>r \<in> set ?b. timed r" and ok: "table_ok (tab (db s))"
    using sent by blast+
  from sync_table [OF ord _ assms(4), of tab exec "db s" "bmetrics s"] assms(2) cols tim ok d
  obtain m where sy: "sync exec ?ord (worker s) (db s) (bmetrics s) = Ok (d, m)"
    "tab d = (if err = None then upsert_each (tab (db s)) (batch_rows ?ord ?b) else tab (db s))"
    by (auto simp: sync_eq [OF ord _ assms(4)] batch_call_def Let_def)
  have "stored (tab d) = foldl put (stored (tab (db s))) (if err = None then ?b else [])"
    using ok tim by (simp add: sy(2) stored_each put_batch_rows [OF ord])
  moreover have "table_ok (tab d)" using ok by (simp add: sy(2) table_ok_each)
  moreover have "send_batches exec ord cols 0 d0 (bs @ [?b]) =
      (d, snd (send_batches exec ord cols 0 d0 bs) @ (if err = None then ?b else []))"
    using sent d by (cases "send_batches exec ord cols 0 d0 bs") (simp add: send_batches_snoc)
  ultimately show ?thesis
    using sy(1) assms(4) sent by (simp add: flush_state_def flush_def batch_sent_def)
qed

lemma batch_step_sent:
  assumes "\<forall>n. any_order (ord n)" "upsert_law tab exec cols" "batch_sent tab exec ord cols d0 recs bs s"
    and "\<forall>r. e = Recv r \<longrightarrow> timed r"
  shows "\<exists>s' bs'. batch_step exec ord dur s e = Ok s' \<and>
    batch_sent tab exec ord cols d0 (case e of Recv r \<Rightarrow> recs @ [r] | _ \<Rightarrow> recs) bs' s' \<and>
    (stopped s' \<longleftrightarrow> stopped s \<or> e = Stop) \<and> (e = Stop \<longrightarrow> buffer (worker s') = [])"
proof (cases e)
  case (Recv r)
  let ?s = "s\<lparr>worker := (worker s)\<lparr>buffer := buffer (worker s) @ [r]\<rparr>\<rparr>"
  have "batch_sent tab exec ord cols d0 (recs @ [r]) bs ?s"
    using assms(3,4) Recv by (auto simp: batch_sent_def)
  from this flush_state_sent [OF assms(1,2) this, of dur] Recv show ?thesis by (auto simp: Let_def)
next
  case Tick
  then show ?thesis using flush_state_sent [OF assms(1-3), of dur] assms(3) by auto
next
  case Stop
  show ?thesis
  proof (cases "buffer (worker s) = []")
    case True
    then show ?thesis using Stop assms(3) by (auto simp: batch_sent_def)
  next
    case False
    from flush_state_sent [OF assms(1-3) this, of dur] obtain s' where s':
      "flush_state exec ord dur s = Ok s'"
      "batch_sent tab exec ord cols d0 recs (bs @ [buffer (worker s)]) s'" "buffer (worker s') = []" by blast
    then have "batch_sent tab exec ord cols d0 recs (bs @ [buffer (worker s)]) (s'\<lparr>stopped := True\<rparr>)"
      by (simp add: batch_sent_def)
    then show ?thesis
      using Stop False s'(1,3) by (intro exI [of _ "s'\<lparr>stopped := True\<rparr>"] exI conjI) auto
  qed
qed

lemma batch_run_sent:
  assumes "\<forall>n. any_order (ord n)" "upsert_law tab exec cols" "batch_sent tab exec ord cols d0 recs bs s"
    and "\<not> stopped s" "\<forall>r. Recv r \<in> set evs \<longrightarrow> timed r"
  shows "\<exists>s' bs'. batch_run exec ord dur s evs = Ok s' \<and>
    batch_sent tab exec ord cols d0 (recs @ received evs) bs' s' \<and>
    (Stop \<in> set evs \<longrightarrow> buffer (worker s') = [])"
  using assms(3-)
proof (induction evs arbitrary: s recs bs)
  case Nil
  then show ?case by auto
next
  case (Cons e evs)
  have "\<forall>r. e = Recv r \<longrightarrow> timed r" using Cons.prems(3) by auto
  from batch_step_sent [OF assms(1,2) Cons.prems(1) this, of dur] Cons.prems(2)
  obtain s1 bs1 where s1: "batch_step exec ord dur s e = Ok s1"
    "batch_sent tab exec ord cols d0 (case e of Recv r \<Rightarrow> recs @ [r] | _ \<Rightarrow> recs) bs1 s1"
    "stopped s1 \<longleftrightarrow> e = Stop" "e = Stop \<longrightarrow> buffer (worker s1) = []" by blast
  show ?case
  proof (cases "e = Stop")
    case True
    then have "batch_run exec ord dur s1 evs = Ok s1" using s1(3) by (cases evs) auto
    then show ?thesis using True s1 Cons.prems(2) by auto
  next
    case False
    from Cons.IH [OF s1(2)] s1 False Cons.prems(2,3) show ?thesis by (cases e) auto
  qed
qed

subsection \<open>A database\<close>

text \<open>
  A concrete \<^verbatim>\<open>Exec\<close>: it cuts the arguments into rows of fifteen and upserts them. It reads the number
  of rows off the arguments.
\<close>

fun rows_of :: "nat \<Rightarrow> sqlval list \<Rightarrow> sqlrow list" where
  "rows_of 0 vals = []"
| "rows_of (Suc n) vals = take 15 vals # rows_of n (drop 15 vals)"

definition table_exec :: "sqltable \<Rightarrow> string \<Rightarrow> sqlval list \<Rightarrow> sqltable \<times> goerror option" where
  "table_exec t sql vals = (foldl upsert_row t (rows_of (length vals div 15) vals), None)"

lemma rows_of_concat: "\<forall>row \<in> set rows. length row = 15 \<Longrightarrow> rows_of (length rows) (concat rows) = rows"
  by (induction rows) auto

lemma length_concat_15: "\<forall>row \<in> set rows. length row = 15 \<Longrightarrow> length (concat rows) = 15 * length rows"
  by (induction rows) auto

lemma table_exec_law: "upsert_law (\<lambda>t. t) table_exec cols"
  by (simp add: upsert_law_def table_exec_def length_concat_15 rows_of_concat)

definition sample_batch :: "InsertRecord list" where
  "sample_batch =
     [sample_record ''1'' ''a'', sample_record ''2'' ''b'', sample_record ''1'' ''c'']"

lemma table_ok_empty [simp]: "table_ok Map.empty"
  by (simp add: table_ok_def)

subsection \<open>Properties\<close>

text \<open>
  C8: The batched write is equivalent to writing the records one by one. For a database that keeps the
  upsert law and a statement that succeeds, the one statement with deduplicated rows in arbitrary
  order leaves the same rows, with the same \<^verbatim>\<open>deleted_at\<close> and \<^verbatim>\<open>raw\<close>, as one upsert per buffered
  record in the order of arrival; a row that existed before is the same in every column. Only the
  other columns of a new row differ when the batch has several records for it: the batch takes them
  from the last one, one-by-one upserts from the first.
\<close>

theorem batch_upsert_equivalence:
  assumes "any_order ord" "\<forall>r \<in> set (buffer w). timed r" "buffer w \<noteq> []"
    and "upsert_law tab exec (columns w)" "table_ok (tab d)"
    and "\<forall>sql vals. snd (exec d sql vals) = None"
  shows "\<exists>d' m'. sync exec ord w d m = Ok (d', m') \<and>
    stored (tab d') = stored (upsert_each (tab d) (buffer w)) \<and>
    (\<forall>k. tab d k \<noteq> None \<longrightarrow> tab d' k = upsert_each (tab d) (buffer w) k) \<and>
    (\<forall>u xs r ys l. tab d (VStr u) = None \<longrightarrow> buffer w = xs @ r # ys \<longrightarrow> GlobalUID r = u \<longrightarrow>
       u \<notin> GlobalUID ` set xs \<longrightarrow> last_write (buffer w) u = Some l \<longrightarrow>
       tab d' (VStr u) = Some (row_values l) \<and>
       upsert_each (tab d) (buffer w) (VStr u) =
         Some ((row_values r)[2 := row_values l ! 2, 13 := row_values l ! 13]))"
proof -
  from sync_table [OF assms(1-4), of d m] assms(6) obtain d' m' where
    d': "sync exec ord w d m = Ok (d', m')" "tab d' = upsert_each (tab d) (batch_rows ord (buffer w))"
    by auto
  have puts: "foldl put (stored (tab d)) (batch_rows ord (buffer w)) = foldl put (stored (tab d)) (buffer w)"
    by (rule put_batch_rows [OF assms(1)])
  have "stored (tab d') = stored (upsert_each (tab d) (buffer w))"
    by (simp add: d'(2) stored_each [OF assms(5)] puts)
  moreover have "tab d' k = upsert_each (tab d) (buffer w) k" if "tab d k \<noteq> None" for k
    using that upsert_each_old [OF _ assms(5)] by (auto simp: d'(2) puts)
  moreover have "tab d' (VStr u) = Some (row_values l)"
    if "tab d (VStr u) = None" "last_write (buffer w) u = Some l" for u l
    using batch_new_row [OF assms(1,5) that] by (simp add: d'(2))
  ultimately show ?thesis
    using d'(1) upsert_each_new [OF assms(5)] by simp
qed

theorem batch_upsert_equivalence_witness:
  "\<exists>d' m'. sync table_exec rev (sample_worker sample_batch) Map.empty None = Ok (d', m') \<and>
     stored d' = stored (upsert_each Map.empty sample_batch)"
proof -
  have "any_order rev" by (simp add: any_order_def)
  moreover have "upsert_law (\<lambda>t. t) table_exec (columns (sample_worker sample_batch))"
    by (rule table_exec_law)
  ultimately show ?thesis
    using batch_upsert_equivalence [of rev "sample_worker sample_batch" "\<lambda>t. t" table_exec Map.empty None]
    by (auto simp: sample_worker_def sample_batch_def table_exec_def)
qed

text \<open>
  C4: The batch worker refines a map with last-write-wins assignment, also when statements fail. Abstract
  the table to the map from global identifiers to deletion time and JSON. For any database that keeps
  the upsert law, after any run the records received are those of the batches sent followed by the
  buffer, and the abstract map is the initial one with the records of exactly those batches assigned,
  in order of arrival, whose statement succeeded: ticks, batch sizes and row orders are invisible. If
  no statement fails, the map overwritten by the buffer is the initial one with all received records
  assigned; and once the worker has stopped the table itself holds these values, each identifier with
  its last record.
\<close>

theorem batch_refines_map:
  assumes "\<forall>n. any_order (ord n)" "upsert_law tab exec (columns w)"
    and "buffer w = []" "table_ok (tab d)" "\<forall>r. Recv r \<in> set evs \<longrightarrow> timed r"
  shows "\<exists>s bs ws. batch_run exec ord dur \<lparr>worker = w, db = d, bmetrics = m, stopped = False, flushes = 0\<rparr> evs = Ok s \<and>
    concat bs @ buffer (worker s) = received evs \<and> (Stop \<in> set evs \<longrightarrow> buffer (worker s) = []) \<and>
    send_batches exec ord (columns w) 0 d bs = (db s, ws) \<and>
    stored (tab (db s)) = foldl put (stored (tab d)) ws \<and>
    ((\<forall>d sql vals. snd (exec d sql vals) = None) \<longrightarrow>
       promised tab s = foldl put (stored (tab d)) (received evs) \<and>
       (Stop \<in> set evs \<longrightarrow> (\<forall>u r. last_write (received evs) u = Some r \<longrightarrow>
          stored (tab (db s)) (VStr u) = Some (payload r))))"
proof -
  let ?s = "\<lparr>worker = w, db = d, bmetrics = m, stopped = False, flushes = 0\<rparr>"
  have "batch_sent tab exec ord (columns w) d [] [] ?s" using assms(3,4) by (simp add: batch_sent_def)
  from batch_run_sent [OF assms(1,2) this, of evs dur] assms(5)
  obtain s bs where s: "batch_run exec ord dur ?s evs = Ok s"
    "batch_sent tab exec ord (columns w) d (received evs) bs s" "Stop \<in> set evs \<longrightarrow> buffer (worker s) = []"
    by auto
  note sent = s(2)[unfolded batch_sent_def]
  obtain ws where ws: "send_batches exec ord (columns w) 0 d bs = (db s, ws)"
    using sent by (metis prod.collapse)
  have all: "promised tab s = foldl put (stored (tab d)) (received evs)"
    if "\<forall>d sql vals. snd (exec d sql vals) = None"
  proof -
    have "ws = concat bs" using send_batches_succeed [OF that, of ord "columns w" 0 d bs] ws by simp
    then have "stored (tab (db s)) = foldl put (stored (tab d)) (concat bs)" using sent ws by simp
    moreover have "concat bs @ buffer (worker s) = received evs" using sent by blast
    ultimately show ?thesis unfolding promised_def by (metis foldl_append)
  qed
  have "stored (tab (db s)) (VStr u) = Some (payload r)"
    if "\<forall>d sql vals. snd (exec d sql vals) = None" "Stop \<in> set evs" "last_write (received evs) u = Some r" for u r
    using all [OF that(1)] s(3) that(2,3) by (simp add: promised_def foldl_put)
  then show ?thesis using s sent ws all by (intro exI conjI) auto
qed

text \<open>A database that refuses every second statement.\<close>

definition flaky_exec ::
  "sqltable \<times> bool \<Rightarrow> string \<Rightarrow> sqlval list \<Rightarrow> (sqltable \<times> bool) \<times> goerror option" where
  "flaky_exec d sql vals =
     (if snd d then ((fst d, False), Some ''down'') else ((fst (table_exec (fst d) sql vals), True), None))"

lemma flaky_exec_law: "upsert_law fst flaky_exec cols"
  using table_exec_law [of cols] by (auto simp: upsert_law_def flaky_exec_def table_exec_def)

theorem batch_refines_map_witness:
  "(\<exists>s. batch_run table_exec (\<lambda>_. rev) (\<lambda>_. 0)
       \<lparr>worker = sample_worker [], db = Map.empty, bmetrics = None, stopped = False, flushes = 0\<rparr>
       (map Recv sample_batch @ [Stop]) = Ok s \<and>
     stored (db s) (VStr ''c:1'') = Some (payload (sample_record ''1'' ''c''))) \<and>
   (\<exists>s bs ws. batch_run flaky_exec (\<lambda>_. rev) (\<lambda>_. 0)
       \<lparr>worker = sample_worker [], db = (Map.empty, True), bmetrics = None, stopped = False, flushes = 0\<rparr>
       (map Recv sample_batch @ [Stop]) = Ok s \<and> concat bs = sample_batch \<and>
     send_batches flaky_exec (\<lambda>_. rev) (columns (sample_worker [])) 0 (Map.empty, True) bs = (db s, ws) \<and>
     stored (fst (db s)) = foldl put (stored Map.empty) ws)"
proof
  have rev: "\<forall>n. any_order ((\<lambda>_. rev) n)" by (simp add: any_order_def)
  have timed: "\<forall>r. Recv r \<in> set (map Recv sample_batch @ [Stop]) \<longrightarrow> timed r"
    by (auto simp: sample_batch_def)
  have recs: "received (map Recv sample_batch @ [Stop]) = sample_batch" by (simp add: sample_batch_def)
  have lw: "last_write sample_batch ''c:1'' = Some (sample_record ''1'' ''c'')"
    by (simp add: sample_batch_def last_write_def)
  have ok: "\<forall>d sql vals. snd (table_exec d sql vals) = None" by (simp add: table_exec_def)
  have w: "buffer (sample_worker []) = []" by (simp add: sample_worker_def)
  show "\<exists>s. batch_run table_exec (\<lambda>_. rev) (\<lambda>_. 0)
       \<lparr>worker = sample_worker [], db = Map.empty, bmetrics = None, stopped = False, flushes = 0\<rparr>
       (map Recv sample_batch @ [Stop]) = Ok s \<and>
     stored (db s) (VStr ''c:1'') = Some (payload (sample_record ''1'' ''c''))"
    using batch_refines_map [where tab = "\<lambda>t. t", OF rev table_exec_law w table_ok_empty timed, of "\<lambda>_. 0" None] lw ok
    unfolding recs by auto
  have "table_ok (fst (Map.empty :: sqltable, True))" by simp
  from batch_refines_map [where tab = fst, OF rev flaky_exec_law w this timed, of "\<lambda>_. 0" None]
  show "\<exists>s bs ws. batch_run flaky_exec (\<lambda>_. rev) (\<lambda>_. 0)
       \<lparr>worker = sample_worker [], db = (Map.empty, True), bmetrics = None, stopped = False, flushes = 0\<rparr>
       (map Recv sample_batch @ [Stop]) = Ok s \<and> concat bs = sample_batch \<and>
     send_batches flaky_exec (\<lambda>_. rev) (columns (sample_worker [])) 0 (Map.empty, True) bs = (db s, ws) \<and>
     stored (fst (db s)) = foldl put (stored Map.empty) ws"
    unfolding recs by fastforce
qed

end
