(* ===== verification/Logger.thy ===== *)
theory Logger
  imports GoPrelude
begin

text \<open>
  \<^verbatim>\<open>internal/util/log/log.go\<close>: the logger every component gets. The handler is third-party; the model
  keeps the options it is built with, the attributes, and what construction itself logs. \<open>environ\<close> is
  the process environment.
\<close>

datatype slog_level = LevelDebug | LevelInfo | LevelWarn | LevelError

fun level_value :: "slog_level \<Rightarrow> int" where
  "level_value LevelDebug = -4"
| "level_value LevelInfo = 0"
| "level_value LevelWarn = 4"
| "level_value LevelError = 8"

record logger =
  lg_Level :: slog_level
  lg_AddSource :: bool
  lg_Attrs :: "(string \<times> string) list"

text \<open>\<^verbatim>\<open>slog\<close> passes a record to the handler only at or above the handler's level.\<close>

definition log_enabled :: "logger \<Rightarrow> slog_level \<Rightarrow> bool" where
  "log_enabled l lv \<longleftrightarrow> level_value (lg_Level l) \<le> level_value lv"

definition log_call :: "logger \<Rightarrow> slog_level \<Rightarrow> string \<Rightarrow> string list \<Rightarrow> (string \<times> string list) list" where
  "log_call l lv msg args = (if log_enabled l lv then [(msg, args)] else [])"

definition log_New :: "string list \<Rightarrow> string \<Rightarrow> bool \<Rightarrow> logger \<times> (string \<times> string list) list" where
  "log_New environ serviceName debugOn =
     (let logLevel = (if debugOn then LevelDebug else LevelInfo);
          l = \<lparr>lg_Level = logLevel, lg_AddSource = False, lg_Attrs = [(''service'', serviceName)]\<rparr>
      in (l, if debugOn then log_call l LevelDebug ''environment variables'' environ else []))"

text \<open>With debugging off debug lines are dropped; with it on the whole environment is logged.\<close>

lemma log_New_debug:
  "log_enabled (fst (log_New environ s debugOn)) LevelDebug \<longleftrightarrow> debugOn"
  "log_enabled (fst (log_New environ s debugOn)) LevelInfo"
  "snd (log_New environ s debugOn) = (if debugOn then [(''environment variables'', environ)] else [])"
  by (simp_all add: log_New_def log_enabled_def log_call_def Let_def)

end
