(* ===== verification/Spec2Isabelle.thy ===== *)
theory Spec2Isabelle
  imports MainProgram Shutdown BusShutdown JobBag Upsert Objects Logger
begin

text \<open>
  This development verifies the resources ingester of the Krateo platform: a Go program that watches
  Kubernetes objects through informers and keeps one row per object in a PostgreSQL table.

  \<^bold>\<open>How the program works.\<close> A router (\<^verbatim>\<open>internal/router/router.go\<close>) has one informer per namespace for
  one group-version-resource; its callbacks build a key and put an item on a shared work queue. The
  worker pool (\<^verbatim>\<open>workpool.go\<close>) takes items off, splits the key, finds the informer in its table, reads
  the object from that informer's store and hands it to the ingester (\<^verbatim>\<open>handler.go\<close>), which publishes
  an event on a bus, addressed to the manager or to storage. The manager (\<^verbatim>\<open>internal/manager/\<close>) reads
  resource definitions and starts or stops a router per version. Storage (\<^verbatim>\<open>internal/storage/\<close>) turns
  an object into a record and pushes a job on the job queue (\<^verbatim>\<open>internal/queue/\<close>); its workers send the
  records on a channel, from which the batch worker (\<^verbatim>\<open>internal/batch/\<close>) collects batches and writes
  each with one SQL statement. \<^verbatim>\<open>main.go\<close> wires the parts, reports their load, and takes them down when
  a signal arrives.

  \<^bold>\<open>The theories.\<close>

  \<^item> \<^verbatim>\<open>GoPrelude\<close>: results with errors and panics, Go maps as association lists, the functions of
    \<^verbatim>\<open>strings\<close> that the source calls, reachable states; the locale \<open>transition_system\<close> (a predicate that
    holds initially and is kept by steps holds in every reachable state). \<^verbatim>\<open>GoChan\<close>: buffered channels
    with blocking, closing and the panics of both.

  \<^item> \<^verbatim>\<open>KubeTypes\<close>: JSON values and \<^verbatim>\<open>json.Marshal\<close>, objects, the heap of shared objects, and the record
    \<open>kube_api\<close> of the third-party accessors with the laws that theorems assume of them. \<^verbatim>\<open>SampleCluster\<close>
    is an instance of that record which meets the laws; witnesses compute with it.

  \<^item> \<^verbatim>\<open>Telemetry\<close>: \<^verbatim>\<open>internal/telemetry/metrics.go\<close>, as the list of calls on the instruments.

  \<^item> \<^verbatim>\<open>UtilKube\<close>: \<^verbatim>\<open>internal/util/kube.go\<close>. Extraction is exact on well-formed manifests, and all
    results agree in group and resource whatever the object is.

  \<^item> \<^verbatim>\<open>RouterKeys\<close>, \<^verbatim>\<open>Router\<close>, \<^verbatim>\<open>WorkPool\<close>: \<^verbatim>\<open>internal/router/\<close>. Keys round-trip and do not collide; what
    each callback enqueues; what reconciling publishes and to whom; the pool finds what routers
    register; retries are bounded. The locale \<open>event_handler\<close> is what the pool relies on of the handler,
    interpreted on \<open>ingester_Handle\<close>. \<^verbatim>\<open>WorkPoolRun\<close> has the goroutines of the pool (\<^verbatim>\<open>Start\<close>, the workers,
    \<^verbatim>\<open>Wait\<close>) as a step relation: after the queue is shut down the pool stops within a bound computed from
    the state, and \<^verbatim>\<open>Wait\<close> joins all workers unless it overtakes \<^verbatim>\<open>Start\<close>. \<open>bus_subscriber\<close> is the contract of a subscriber, interpreted on
    the handlers of the manager and of storage.

  \<^item> \<^verbatim>\<open>Manager\<close>: \<^verbatim>\<open>internal/manager/\<close>. The map of cancel functions and the running routers agree after any
    sequence of events; versions are started and stopped; the unlocked lookup of \<^verbatim>\<open>stopInformer\<close> loses
    routers. Contexts are numbers, and a router is live until its context is cancelled.

  \<^item> \<^verbatim>\<open>Batch\<close>: \<^verbatim>\<open>internal/batch/\<close>. Nothing is lost or reordered between channel and database; the text and
    the arguments of the statement match; the last write of a batch wins; a failed batch is dropped.
    \<^verbatim>\<open>Upsert\<close> adds what the statements do to the table, for a database that keeps \<open>upsert_law\<close>: a batch is
    equivalent to one upsert per record, and the worker refines a map with last-write-wins assignment.

  \<^item> \<^verbatim>\<open>QueueWorker\<close>, \<^verbatim>\<open>JobQueue\<close>, \<^verbatim>\<open>ChanQueue\<close>: \<^verbatim>\<open>internal/queue/\<close>. The queue of the program is a
    step relation in which pushing goroutines, the dispatcher, the workers and one call of \<^verbatim>\<open>Terminate\<close>
    interleave, one step per channel, atomic or wait-group operation; accepted and executed jobs are
    history variables. The locale \<open>job_queue\<close> states the contract of a queue and is interpreted on both
    queues. \<^verbatim>\<open>ListQueue\<close> has the queue over a linked list and the package-level functions; its length
    limit is off by one. \<^verbatim>\<open>ChanQueueSafe\<close> has the invariant of race-free runs, \<^verbatim>\<open>ChanQueueLive\<close> the progress
    argument (worker tokens, a measure of the work left), \<^verbatim>\<open>ChanQueueExec\<close> executable schedules whose
    executions are runs of the relation, and \<^verbatim>\<open>ChanQueueProps\<close> the results. \<^verbatim>\<open>JobBag\<close> is the abstract
    specification of a queue, a bag of jobs run one at a time, with the locale \<open>bag_queue\<close> (an extension
    of \<open>job_queue\<close>) in which the simulation is proved, interpreted on both queues.

  \<^item> \<^verbatim>\<open>Storage\<close>: \<^verbatim>\<open>internal/storage/\<close>. What is pushed, what is refused, what happens to the shared object;
    no pushed record can make the batch worker dereference nil. \<^verbatim>\<open>Objects\<close>: \<^verbatim>\<open>internal/objects/\<close>, the resolver
    that storage builds: which errors it reports and which it swallows. \<^verbatim>\<open>BusShutdown\<close>: storage's
    subscription, the pool and a bus that keeps \<open>bus_law\<close>, up to the end of the program.
    \<^verbatim>\<open>Pgcheck\<close>: \<^verbatim>\<open>internal/storage/pgcheck/\<close>. The schema check is exact, and a pool is returned only after
    it passed.

  \<^item> \<^verbatim>\<open>Config\<close>: \<^verbatim>\<open>internal/config/\<close>. Database parameters round-trip; the list of namespaces is never empty.

  \<^item> \<^verbatim>\<open>Pipeline\<close>: the job queue, the record channel and the batch worker as \<^verbatim>\<open>main.go\<close> composes them. Every
    accepted record is in exactly one place; a shutdown at a bad moment hangs for ever.

  \<^item> \<^verbatim>\<open>MainProgram\<close>: \<^verbatim>\<open>main.go\<close>. Start-up as a function of what the libraries answer (\<open>main_env\<close>), with every
    exit, what is running, open and deferred at each point, and the two reporting loops. It is all or
    nothing, and the gauges stay within bounds. \<^verbatim>\<open>Shutdown\<close> interleaves the last calls of \<^verbatim>\<open>main\<close> with the
    pipeline: the database is closed after the queue has drained, but the batch worker's buffer is not
    waited for. \<^verbatim>\<open>Logger\<close>: \<^verbatim>\<open>internal/util/log/log.go\<close>.

  \<^item> This theory: the two paths from an informer callback to a pushed record, the path from a resource
    definition to its running routers in the program as \<^verbatim>\<open>main\<close> starts it, and the agreement of the
    insert statement with the schema check.

  \<^bold>\<open>Conventions.\<close> Code that is not part of the repository is an argument: the Kubernetes client and its
  caches, the work queue, the event bus, the database driver (\<open>exec\<close>), OpenTelemetry, the clock. The
  order in which Go visits a map is an arbitrary permutation. Goroutines are interleaved at the
  granularity of their synchronisation operations. Log lines are left out, but for what the
  exits of \<^verbatim>\<open>main\<close>, its status loop and the construction of the logger write. Integers that
  only count (lengths, wait groups, batch sizes) are unbounded; the running flag of the queue is a
  32-bit word. No definition uses fuel: loops are structural recursions, and the loops that need not
  end (\<^verbatim>\<open>runWorker\<close>, the select loop of the batch worker, the goroutines of the queue) are taken step by
  step over the list of events or as a relation. Concurrent calls of \<^verbatim>\<open>Terminate\<close>, and \<^verbatim>\<open>Run\<close> concurrent
  with other calls, are outside the queue model.

  \<^bold>\<open>Laws.\<close> What the theorems assume of third-party code is named: \<open>meta_key_law\<close> and \<open>deletion_law\<close> (accessors
  of the Kubernetes client), \<open>drain_law\<close> (the work queue hands out what it holds, refuses additions once it
  is shut down, and then reports so), \<open>upsert_law\<close> (an insert with a conflict clause), \<open>bus_law\<close> (a
  publication reaches the subscribed handlers). Each has an instance that meets it.

  \<^bold>\<open>Not modelled.\<close> The probe server and the delivery of signals are input and output: the server is a
  resource that is opened and shut down, a signal is the step that ends the root context. The
  writing of log lines, and the internals of every third-party package. Next steps: liveness of
  \<^verbatim>\<open>Terminate\<close> on race-free runs of both queues, and the order of records of one object when the queue
  has a single worker.
\<close>

section \<open>From an informer callback to a record\<close>

subsection \<open>A sample object\<close>

definition sample_router :: Router where
  "sample_router = \<lparr>informers = [0], namespaces = [[]],
     Gvr = \<lparr>Group = ''a.io'', Version = ''v1'', Resource = ''things''\<rparr>, kind = ''Thing''\<rparr>"

definition sample_thing :: unstructured where
  "sample_thing = sample_object ''a.io/v1'' ''Thing'' ''ns'' ''c'' ''u1''"

subsection \<open>Lemmas\<close>

lemma reconcile_deletion:
  assumes "splitKey api key = Ok (g, v, r, k, ns, n)"
  shows "reconcile api (ingester_Handle api) store h infs \<lparr>Key = key, ItemObject = Some p\<rparr> =
    Ok [\<lparr>EventName = GetName api (h p), EventType = DELETE, EventTarget = STORAGE, Obj = p,
         EventResource = r\<rparr>]"
  by (simp add: reconcile_def assms ingester_Handle_def)

lemma deletion_stored:
  assumes "meta_key_law api" "deletion_law api" "obj_clean api (objects s p)"
    and "gvr_clean (Gvr r)" "key_clean (kind r)"
    and "buildKey api (Gvr r) (kind r) (objects s p) = Inr key"
    and "ParseGroupVersion api (GetAPIVersion api (objects s p)) = Inr (grp, version)"
    and "GetUID api (objects s p) \<noteq> []"
    and "obj = AnyUnstructured p \<or> obj = AnyTombstone tk (AnyUnstructured p)"
  shows "\<exists>item ev rec s'.
    rqueue (onDelete api add (objects s) r obj st) = add (rqueue st) item \<and>
    reconcile api (ingester_Handle api) store (objects s) infs item = Ok [ev] \<and>
    storage_on_event api cluster push now now' s ev = (s', None) \<and>
    squeue s' = push (squeue s) \<lparr>Record = rec\<rparr> \<and>
    record_of api cluster now' (Resource (Gvr r)) (objects s p) rec \<and> DeletedAt rec \<noteq> None \<and>
    manager_on_event api mkInf (objects s) m ev = m"
proof -
  let ?item = "\<lparr>Key = key, ItemObject = Some p\<rparr>"
  let ?ev = "\<lparr>EventName = GetName api (objects s p), EventType = DELETE, EventTarget = STORAGE,
    Obj = p, EventResource = Resource (Gvr r)\<rparr>"
  have enq: "rqueue (onDelete api add (objects s) r obj st) = add (rqueue st) ?item"
    using assms(6,9) by (auto simp: callback_defs)
  have rec: "reconcile api (ingester_Handle api) store (objects s) infs ?item = Ok [?ev]"
    by (rule reconcile_deletion [OF buildKey_splitKey [OF assms(1,3-6)]])
  have "EventTarget ?ev = STORAGE"
    "ParseGroupVersion api (GetAPIVersion api (objects s (Obj ?ev))) = Inr (grp, version)"
    "GetUID api (objects s (Obj ?ev)) \<noteq> []" using assms(7,8) by simp_all
  from storage_record [OF assms(2) this, of cluster push now now'] enq rec
  show ?thesis by (fastforce simp: mgr_sub.ignores)
qed

lemma update_stored:
  assumes "meta_key_law api" "deletion_law api" "obj_clean api (objects s p)"
    and "gvr_clean (Gvr r)" "key_clean (kind r)" "Group (Gvr r) \<noteq> ''apiextensions.k8s.io''"
    and "buildKey api (Gvr r) (kind r) (objects s p) = Inr key"
    and "find_informer infs (Gvr r) (kind r) (GetNamespace api (objects s p)) = Some ifm"
    and "store ifm (meta_key (GetNamespace api (objects s p)) (GetName api (objects s p))) =
      Inr (Some (AnyUnstructured un))"
    and "ParseGroupVersion api (GetAPIVersion api (objects s un)) = Inr (grp, version)"
    and "GetUID api (objects s un) \<noteq> []"
  shows "\<exists>item ev rec s'.
    rqueue (onAdd api add (objects s) r (AnyUnstructured p) st) = add (rqueue st) item \<and>
    reconcile api (ingester_Handle api) store (objects s) infs item = Ok [ev] \<and>
    storage_on_event api cluster push now now' s ev = (s', None) \<and>
    squeue s' = push (squeue s) \<lparr>Record = rec\<rparr> \<and>
    record_of api cluster now' (Resource (Gvr r)) (objects s un) rec \<and> DeletedAt rec = None"
proof -
  let ?item = "\<lparr>Key = key, ItemObject = None\<rparr>"
  have enq: "rqueue (onAdd api add (objects s) r (AnyUnstructured p) st) = add (rqueue st) ?item"
    using assms(7) by (simp add: callback_defs)
  obtain ev where ev: "reconcile api (ingester_Handle api) store (objects s) infs ?item = Ok [ev]"
    "Obj ev = un" "EventType ev = UPDATE" "EventResource ev = Resource (Gvr r)"
    "EventTarget ev = STORAGE"
    using ing.reconcile_current [where h = "objects s" and store = store, OF assms(1,3-5,7-9)] assms(6) by auto
  from storage_record [OF assms(2) ev(5), of s grp version cluster push now now'] assms(10,11) enq ev
  show ?thesis by fastforce
qed

subsection \<open>Properties\<close>

text \<open>
  C2: A deletion reaches the database with a deletion time. When an informer reports an object as
  deleted, the object itself or a tombstone around it, the router puts one item on the work queue; reconciling it
  publishes one event; storage turns that event into one pushed record of that object, with the
  resource of the router and with a deletion time; and the manager ignores the event.
\<close>

theorem deletion_reaches_storage:
  assumes "meta_key_law api" "deletion_law api" "obj_clean api (objects s p)"
    and "gvr_clean (Gvr r)" "key_clean (kind r)"
    and "buildKey api (Gvr r) (kind r) (objects s p) = Inr key"
    and "ParseGroupVersion api (GetAPIVersion api (objects s p)) = Inr (grp, version)"
    and "GetUID api (objects s p) \<noteq> []"
    and "obj = AnyUnstructured p \<or> obj = AnyTombstone tk (AnyUnstructured p)"
  shows "\<exists>item ev rec s'.
    rqueue (onDelete api add (objects s) r obj st) = add (rqueue st) item \<and>
    reconcile api (ingester_Handle api) store (objects s) infs item = Ok [ev] \<and>
    storage_on_event api cluster push now now' s ev = (s', None) \<and>
    squeue s' = push (squeue s) \<lparr>Record = rec\<rparr> \<and>
    record_of api cluster now' (Resource (Gvr r)) (objects s p) rec \<and> DeletedAt rec \<noteq> None \<and>
    manager_on_event api mkInf (objects s) m ev = m"
  using assms by (rule deletion_stored)

lemma sample_thing_facts:
  "obj_clean sample_api sample_thing" "gvr_clean (Gvr sample_router)" "key_clean (kind sample_router)"
  "buildKey sample_api (Gvr sample_router) (kind sample_router) sample_thing =
     Inr ''a.io/v1/things/Thing|ns/c''"
  "ParseGroupVersion sample_api (GetAPIVersion sample_api sample_thing) = Inr (''a.io'', ''v1'')"
  "GetUID sample_api sample_thing \<noteq> []" "Group (Gvr sample_router) \<noteq> ''apiextensions.k8s.io''"
  "GetNamespace sample_api sample_thing = ''ns''" "GetName sample_api sample_thing = ''c''"
  by (simp_all add: sample_thing_def sample_router_def sample_defs obj_clean_def gvr_clean_def
      key_clean_def buildKey_def)

theorem deletion_reaches_storage_witness:
  "\<exists>ev s' rec. reconcile sample_api (ingester_Handle sample_api) (\<lambda>_ _. Inr None)
       (objects (sample_storage sample_thing)) []
       (hd (rqueue (onDelete sample_api (\<lambda>q i. q @ [i]) (objects (sample_storage sample_thing))
              sample_router (AnyUnstructured 3) \<lparr>rqueue = [], rmetrics = None\<rparr>))) = Ok [ev] \<and>
     storage_on_event sample_api ''k1'' (\<lambda>q j. q @ [j]) sample_time sample_time
       (sample_storage sample_thing) ev = (s', None) \<and>
     squeue s' = [\<lparr>Record = rec\<rparr>] \<and> UID rec = ''u1'' \<and> DeletedAt rec \<noteq> None"
proof -
  have o: "objects (sample_storage sample_thing) 3 = sample_thing"
    by (simp add: sample_storage_def)
  have u: "GetUID sample_api sample_thing = ''u1''" by (simp add: sample_thing_def sample_defs)
  have "squeue (sample_storage sample_thing) = []" by (simp add: sample_storage_def)
  with deletion_reaches_storage [OF sample_meta_key_law sample_deletion_law,
      where p = 3 and s = "sample_storage sample_thing" and r = sample_router,
      unfolded o, OF sample_thing_facts(1-6) disjI1 [OF refl], where add = "\<lambda>q i. q @ [i]" and
        st = "\<lparr>rqueue = [], rmetrics = None\<rparr>" and push = "\<lambda>q j. q @ [j]" and infs = "[]"
        and store = "\<lambda>_ _. Inr None" and cluster = "''k1''" and now = sample_time and
        now' = sample_time] u
  show ?thesis by (fastforce simp: record_of_def)
qed

text \<open>
  C3: An addition reaches the database as the current object. When an informer reports an object of a
  group other than that of the resource definitions, the router puts its key on the work queue;
  reconciling it reads the object that the informer's store holds by then and publishes one event;
  and storage turns that event into one pushed record of that object, with the resource of the
  router and without a deletion time.
\<close>

theorem addition_reaches_storage:
  assumes "meta_key_law api" "deletion_law api" "obj_clean api (objects s p)"
    and "gvr_clean (Gvr r)" "key_clean (kind r)" "Group (Gvr r) \<noteq> ''apiextensions.k8s.io''"
    and "buildKey api (Gvr r) (kind r) (objects s p) = Inr key"
    and "find_informer infs (Gvr r) (kind r) (GetNamespace api (objects s p)) = Some ifm"
    and "store ifm (meta_key (GetNamespace api (objects s p)) (GetName api (objects s p))) =
      Inr (Some (AnyUnstructured un))"
    and "ParseGroupVersion api (GetAPIVersion api (objects s un)) = Inr (grp, version)"
    and "GetUID api (objects s un) \<noteq> []"
  shows "\<exists>item ev rec s'.
    rqueue (onAdd api add (objects s) r (AnyUnstructured p) st) = add (rqueue st) item \<and>
    reconcile api (ingester_Handle api) store (objects s) infs item = Ok [ev] \<and>
    storage_on_event api cluster push now now' s ev = (s', None) \<and>
    squeue s' = push (squeue s) \<lparr>Record = rec\<rparr> \<and>
    record_of api cluster now' (Resource (Gvr r)) (objects s un) rec \<and> DeletedAt rec = None"
  using assms by (rule update_stored)

theorem addition_reaches_storage_witness:
  "\<exists>item ev s' rec.
     rqueue (onAdd sample_api (\<lambda>q i. q @ [i]) (objects (sample_storage sample_thing)) sample_router
       (AnyUnstructured 3) \<lparr>rqueue = [], rmetrics = None\<rparr>) = [item] \<and>
     reconcile sample_api (ingester_Handle sample_api) (\<lambda>_ _. Inr (Some (AnyUnstructured 3)))
       (objects (sample_storage sample_thing)) [(''a.io/v1/things/Thing|'', 0)] item = Ok [ev] \<and>
     storage_on_event sample_api ''k1'' (\<lambda>q j. q @ [j]) sample_time sample_time
       (sample_storage sample_thing) ev = (s', None) \<and>
     squeue s' = [\<lparr>Record = rec\<rparr>] \<and> DeletedAt rec = None"
proof -
  have o: "objects (sample_storage sample_thing) 3 = sample_thing"
    and q: "squeue (sample_storage sample_thing) = []"
    by (simp_all add: sample_storage_def)
  have "find_informer [(''a.io/v1/things/Thing|'', 0)] (Gvr sample_router) (kind sample_router)
      (GetNamespace sample_api sample_thing) = Some 0"
    by (simp add: find_informer_def getInformerKey_def sample_router_def sample_thing_facts(8))
  from addition_reaches_storage [OF sample_meta_key_law sample_deletion_law,
      where p = 3 and un = 3 and s = "sample_storage sample_thing" and r = sample_router and
        store = "\<lambda>_ _. Inr (Some (AnyUnstructured 3))",
      unfolded o, OF sample_thing_facts(1-3,7,4) this refl sample_thing_facts(5,6),
      where add = "\<lambda>q i. q @ [i]" and st = "\<lparr>rqueue = [], rmetrics = None\<rparr>" and
        push = "\<lambda>q j. q @ [j]" and cluster = "''k1''" and now = sample_time and now' = sample_time]
  show ?thesis using q by fastforce
qed

section \<open>From a resource definition to a running router\<close>

lemma definition_routed:
  assumes "wired E pr" and "meta_key_law api" "obj_clean api (h p)"
    and "buildKey api crd_gvr ''CustomResourceDefinition'' (h p) = Inr key"
    and "store (me_mkInf E crd_gvr []) (meta_key (GetNamespace api (h p)) (GetName api (h p))) =
      Inr (Some (AnyUnstructured un))"
  shows "\<exists>ev. reconcile api (ingester_Handle api) store h (wp_informers (pr_wgpool pr))
      \<lparr>Key = key, ItemObject = None\<rparr> = Ok [ev] \<and>
    Obj ev = un \<and> EventType ev = UPDATE \<and> EventTarget ev = MANAGER"
proof -
  have clean: "gvr_clean crd_gvr" "key_clean ''CustomResourceDefinition''"
    by (simp_all add: crd_gvr_def gvr_clean_def key_clean_def)
  have grp: "Group crd_gvr = ''apiextensions.k8s.io''" by (simp add: crd_gvr_def)
  have "find_informer (wp_informers (pr_wgpool pr)) crd_gvr ''CustomResourceDefinition'' (GetNamespace api (h p)) =
      Some (me_mkInf E crd_gvr [])"
    using assms(1) by (simp add: wired_def)
  from ing.reconcile_current [where h = h and store = store, OF assms(2,3) clean assms(4) this assms(5)]
  show ?thesis by (auto simp: grp)
qed

text \<open>
  C6: In the program as it starts, a resource definition starts its routers. When the informer of the
  resource definitions reports a definition of one of the nine managed groups that is not being
  deleted, its item makes a worker publish one event, addressed to the manager. The manager, which runs
  no router at the start, then runs one for each version the definition serves (but the placeholder
  version vacuum), of the definition's kind, on the configured namespaces if it is namespaced and on all
  of them otherwise; and it runs no other.
\<close>

theorem definition_starts_routers:
  assumes "main_start E = Cont pr proc" and "meta_key_law api" "obj_clean api (h p)"
    and "buildKey api crd_gvr ''CustomResourceDefinition'' (h p) = Inr key"
    and "store (me_mkInf E crd_gvr []) (meta_key (GetNamespace api (h p)) (GetName api (h p))) =
      Inr (Some (AnyUnstructured un))"
    and "GetKind api (h un) = ''CustomResourceDefinition''" "GetDeletionTimestamp api (h un) = None"
    and "ExtractGvrkNsFromCrd (h un) = (gvrs, knd, namespaced)"
    and "Group (hd gvrs) \<in> set managed_group_names"
  shows "\<exists>ev m. reconcile api (ingester_Handle api) store h (wp_informers (pr_wgpool pr))
      \<lparr>Key = key, ItemObject = None\<rparr> = Ok [ev] \<and> EventTarget ev = MANAGER \<and>
    manager_on_event api (me_mkInf E) h (pr_manager pr) ev = m \<and> running (pr_manager pr) = [] \<and>
    (\<forall>g \<in> set gvrs. \<not> gvr_Empty api g \<longrightarrow> Version g \<noteq> ''vacuum'' \<longrightarrow>
       (\<exists>c r. (c, r) \<in> set (running m) \<and> gvr_String api (Gvr r) = gvr_String api g)) \<and>
    (\<forall>(c, r) \<in> set (running m). Gvr r \<in> set gvrs \<and> kind r = knd \<and>
       namespaces r = (if namespaced \<and> cfg_Namespaces (pr_config pr) \<noteq> []
                       then cfg_Namespaces (pr_config pr) else [[]]))"
proof -
  have "yields (\<lambda>pr p. fully_started p \<and> wired E pr) (main_start E)" by (rule main_start_yields)
  then have w: "wired E pr" using assms(1) by simp
  then have idle: "manager_idle (pr_manager pr)"
    and nss: "Namespaces (pr_manager pr) = cfg_Namespaces (pr_config pr)" by (simp_all add: wired_def)
  then have m: "manager_inv api (pr_manager pr)" "\<not> mgrDone (pr_manager pr)" "running (pr_manager pr) = []"
    by (simp_all add: manager_idle_inv) (simp_all add: manager_idle_def running_def live_def)
  have grp: "isManagedGroup (managedGroups (pr_manager pr)) (Group (hd gvrs))"
    using assms(9) w unfolding isManagedGroup_iff by (simp add: wired_def)
  obtain ev where ev: "reconcile api (ingester_Handle api) store h (wp_informers (pr_wgpool pr))
      \<lparr>Key = key, ItemObject = None\<rparr> = Ok [ev]" "Obj ev = un" "EventType ev = UPDATE" "EventTarget ev = MANAGER"
    using definition_routed [where h = h and store = store, OF w assms(2-5)] by blast
  note managed = manager_starts [OF m(1,2) ev(4), of h gvrs knd namespaced, unfolded ev(2,3),
      OF assms(6,8) grp disjI2 [OF conjI [OF refl assms(7)]] refl, of "me_mkInf E", unfolded m(3) nss]
  then show ?thesis using ev(1,4) m(3) by (intro exI [of _ ev] exI conjI refl) auto
qed

lemma sample_crd_key:
  "obj_clean sample_api sample_crd"
  "\<exists>key. buildKey sample_api crd_gvr ''CustomResourceDefinition'' sample_crd = Inr key"
  by (simp_all add: sample_crd_def crd_manifest_def sample_defs obj_clean_def buildKey_def)

theorem definition_starts_routers_witness:
  "\<exists>pr proc ev key c r. main_start sample_env = Cont pr proc \<and>
     reconcile sample_api (ingester_Handle sample_api) (\<lambda>_ _. Inr (Some (AnyUnstructured 0))) (\<lambda>_. sample_crd)
       (wp_informers (pr_wgpool pr)) \<lparr>Key = key, ItemObject = None\<rparr> = Ok [ev] \<and>
     (c, r) \<in> set (running (manager_on_event sample_api (me_mkInf sample_env) (\<lambda>_. sample_crd) (pr_manager pr) ev)) \<and>
     gvr_String sample_api (Gvr r) = ''core.krateo.io/v1, Resource=repos'' \<and> kind r = ''Repo''"
proof -
  let ?gvrs = "[sample_gvr, \<lparr>Group = ''core.krateo.io'', Version = ''vacuum'', Resource = ''repos''\<rparr>]"
  obtain pr proc where mp: "main_start sample_env = Cont pr proc" using sample_env_starts by blast
  obtain key where key: "buildKey sample_api crd_gvr ''CustomResourceDefinition'' sample_crd = Inr key"
    using sample_crd_key(2) by blast
  have "Group (hd ?gvrs) \<in> set managed_group_names"
    by (simp add: sample_gvr_facts managed_group_names_def)
  from definition_starts_routers [where h = "\<lambda>_. sample_crd" and p = 0 and un = 0 and
      store = "\<lambda>_ _. Inr (Some (AnyUnstructured 0))", OF mp sample_meta_key_law sample_crd_key(1) key refl
      sample_crd_facts this]
  obtain ev m where ev: "reconcile sample_api (ingester_Handle sample_api) (\<lambda>_ _. Inr (Some (AnyUnstructured 0)))
      (\<lambda>_. sample_crd) (wp_informers (pr_wgpool pr)) \<lparr>Key = key, ItemObject = None\<rparr> = Ok [ev]"
    "manager_on_event sample_api (me_mkInf sample_env) (\<lambda>_. sample_crd) (pr_manager pr) ev = m"
    "\<forall>g \<in> set ?gvrs. \<not> gvr_Empty sample_api g \<longrightarrow> Version g \<noteq> ''vacuum'' \<longrightarrow>
       (\<exists>c r. (c, r) \<in> set (running m) \<and> gvr_String sample_api (Gvr r) = gvr_String sample_api g)"
    "\<forall>(c, r) \<in> set (running m). kind r = ''Repo''" by fast
  moreover obtain c r where "(c, r) \<in> set (running m)" "gvr_String sample_api (Gvr r) = gvr_String sample_api sample_gvr"
    using ev(3) sample_gvr_facts(2,3) by (meson list.set_intros(1))
  ultimately show ?thesis using mp unfolding sample_gvr_facts(1) by (intro exI conjI) auto
qed

section \<open>The table and the statement\<close>

text \<open>A column without the comment line that the embedded file puts before the first one.\<close>

definition column_name :: "string \<Rightarrow> string" where
  "column_name c = last (strings_Split c CHR 0x0A)"

text \<open>
  C28: The insert statement and the schema check agree: the columns of the batch worker that
  \<^verbatim>\<open>main.go\<close> makes are pairwise different, and together with the generated key \<^verbatim>\<open>id\<close> they are exactly the
  columns that the start-up check demands of the table. So a table that passes the check has every
  column the statement names.
\<close>

theorem insert_columns_checked:
  "\<exists>w. NewWorker batch_sql_fs \<lparr>MaxBatch = 50, FlushEvery = 5 * 10 ^ 9\<rparr> = Ok w \<and> distinct (map column_name (columns w)) \<and>
     insert ''id'' (column_name ` set (columns w)) = dom (map_of expectedColumns) \<and>
     ''id'' \<notin> column_name ` set (columns w)"
proof -
  obtain w where w: "NewWorker batch_sql_fs \<lparr>MaxBatch = 50, FlushEvery = 5 * 10 ^ 9\<rparr> = Ok w"
    "columns w = [''-- Ordered list of columns used by COPY'' @ [CHR 0x0A] @ ''created_at'',
          ''updated_at'', ''deleted_at'', ''cluster_name'', ''uid'', ''global_uid'', ''namespace'',
          ''resource_group'', ''resource_version'', ''resource_kind'', ''resource_plural'',
          ''resource_name'', ''composition_id'', ''raw'', ''status_raw'']"
    using NewWorker_columns [of 50] by simp
  have "map column_name (columns w) =
      [''created_at'', ''updated_at'', ''deleted_at'', ''cluster_name'', ''uid'', ''global_uid'', ''namespace'',
       ''resource_group'', ''resource_version'', ''resource_kind'', ''resource_plural'',
       ''resource_name'', ''composition_id'', ''raw'', ''status_raw'']"
    unfolding w(2) by code_simp
  then have m: "map column_name (columns w) = remove1 ''id'' (map fst expectedColumns)"
    by (simp add: expectedColumns_def)
  have d: "distinct (map fst expectedColumns)" using wf_expectedColumns by (simp add: wf_map_def)
  have i: "''id'' \<in> set (map fst expectedColumns)" by (simp add: expectedColumns_def)
  have "set (map column_name (columns w)) = set (map fst expectedColumns) - {''id''}"
    unfolding m by (rule set_remove1_eq [OF d])
  then have s: "column_name ` set (columns w) = set (map fst expectedColumns) - {''id''}"
    by (simp only: set_map)
  have dom: "dom (map_of expectedColumns) = set (map fst expectedColumns)"
    by (simp only: dom_map_of_conv_image_fst set_map)
  show ?thesis
  proof (intro exI conjI)
    show "NewWorker batch_sql_fs \<lparr>MaxBatch = 50, FlushEvery = 5 * 10 ^ 9\<rparr> = Ok w" by (rule w(1))
    show "distinct (map column_name (columns w))" unfolding m using d by (rule distinct_remove1)
    show "insert ''id'' (column_name ` set (columns w)) = dom (map_of expectedColumns)"
      unfolding s dom insert_Diff_single by (rule insert_absorb [OF i])
    show "''id'' \<notin> column_name ` set (columns w)" unfolding s by (simp only: Diff_iff singletonI not_True_eq_False simp_thms)
  qed
qed

end
